theory Spec2Isabelle
  imports Complex_Main "HOL-Library.Sublist"
begin

section \<open>Query text\<close>

text \<open>
  A query is a \<^typ>\<open>string\<close>; its characters are the code units U+0000 to U+00FF. Among
  them the white space of the regular expression class \<^verbatim>\<open>\s\<close>, of \<^verbatim>\<open>trim\<close> and of
  \<^verbatim>\<open>parseInt\<close> is tab, line feed, vertical tab, form feed, carriage return, space and
  the no-break space U+00A0; the line terminators that end the reach of \<^verbatim>\<open>.\<close> and match
  \<^verbatim>\<open>$\<close> under the \<^verbatim>\<open>m\<close> flag are line feed and carriage return.

  \<^verbatim>\<open>toUpperCase\<close> maps the letters a to z, and U+00E0 to U+00FE but for the division
  sign U+00F7, to the letter 32 places before; the sharp s U+00DF becomes \<^verbatim>\<open>SS\<close>. The
  upper case of the micro sign U+00B5 and of U+00FF lies beyond U+00FF: the model leaves
  these two as they are (neither form is white space, a separator or a letter of a
  command).
\<close>

definition is_space :: "char \<Rightarrow> bool" where
  "is_space c =
     (c \<in> set [CHR 0x09, CHR 0x0A, CHR 0x0B, CHR 0x0C, CHR 0x0D, CHR '' '', CHR 0xA0])"

definition is_line_terminator :: "char \<Rightarrow> bool" where
  "is_line_terminator c = (c = CHR 0x0A \<or> c = CHR 0x0D)"

definition upper_char :: "char \<Rightarrow> char" where
  "upper_char c =
     (let n = (of_char c :: nat)
      in if (97 \<le> n \<and> n \<le> 122) \<or> (224 \<le> n \<and> n \<le> 254 \<and> n \<noteq> 247)
         then char_of (n - 32)
         else c)"

definition toUpperCase :: "string \<Rightarrow> string" where
  "toUpperCase s = concat (map (\<lambda>c. if c = CHR 0xDF then ''SS'' else [upper_char c]) s)"

definition trim :: "string \<Rightarrow> string" where
  "trim s = rev (dropWhile is_space (rev (dropWhile is_space s)))"

section \<open>validators.ts\<close>

subsection \<open>Normalisation of the query\<close>

text \<open>
  \<^verbatim>\<open>.replace(/--.*$/gm, "")\<close>: from each \<^verbatim>\<open>--\<close> found scanning left to right, the text
  up to (not including) the next line terminator, or to the end, is removed.
\<close>

function strip_line_comments :: "string \<Rightarrow> string" where
  "strip_line_comments [] = []"
| "strip_line_comments [c] = [c]"
| "strip_line_comments (a # b # s) =
     (if a = CHR ''-'' \<and> b = CHR ''-''
      then strip_line_comments (dropWhile (\<lambda>c. \<not> is_line_terminator c) s)
      else a # strip_line_comments (b # s))"
  by pat_completeness auto
termination
  by (relation "measure length") (auto simp: less_Suc_eq_le intro: le_SucI length_dropWhile_le)

text \<open>
  \<^verbatim>\<open>.replace(/\/\*[\s\S]*?\*\//g, "")\<close>: from each \<^verbatim>\<open>/*\<close> the text through the first
  \<^verbatim>\<open>*/\<close> that starts after it is removed; a \<^verbatim>\<open>/*\<close> that is never closed stays.
  \<open>find_close s\<close> is the text after the first \<^verbatim>\<open>*/\<close> of \<open>s\<close>.
\<close>

fun find_close :: "string \<Rightarrow> string option" where
  "find_close [] = None"
| "find_close [c] = None"
| "find_close (a # b # s) =
     (if a = CHR ''*'' \<and> b = CHR ''/'' then Some s else find_close (b # s))"

lemma find_close_length: "find_close s = Some r \<Longrightarrow> length r < length s"
  by (induction s arbitrary: r rule: find_close.induct) (auto split: if_splits)

function strip_block_comments :: "string \<Rightarrow> string" where
  "strip_block_comments [] = []"
| "strip_block_comments [c] = [c]"
| "strip_block_comments (a # b # s) =
     (if a = CHR ''/'' \<and> b = CHR ''*''
      then (case find_close s of
              Some r \<Rightarrow> strip_block_comments r
            | None \<Rightarrow> a # strip_block_comments (b # s))
      else a # strip_block_comments (b # s))"
  by pat_completeness auto
termination
  by (relation "measure length") (auto dest: find_close_length)

text \<open>\<^verbatim>\<open>.replace(/\s+/g, " ")\<close>: every maximal run of white space becomes one space.\<close>

function collapse_whitespace :: "string \<Rightarrow> string" where
  "collapse_whitespace [] = []"
| "collapse_whitespace (c # s) =
     (if is_space c
      then CHR '' '' # collapse_whitespace (dropWhile is_space s)
      else c # collapse_whitespace s)"
  by pat_completeness auto
termination
  by (relation "measure length") (auto simp: less_Suc_eq_le intro: length_dropWhile_le)

definition normalizeQuery :: "string \<Rightarrow> string" where
  "normalizeQuery query =
     toUpperCase (trim (collapse_whitespace (strip_block_comments (strip_line_comments query))))"

subsection \<open>Command lists\<close>

definition BASE_ALLOWED_COMMANDS :: "string list" where
  "BASE_ALLOWED_COMMANDS = [''SELECT'', ''SHOW'', ''DESCRIBE'', ''DESC'', ''EXPLAIN'']"

definition DISALLOWED_COMMANDS :: "string list" where
  "DISALLOWED_COMMANDS =
     [''DROP'', ''CREATE'', ''ALTER'', ''TRUNCATE'', ''RENAME'', ''REPLACE'', ''GRANT'',
      ''REVOKE'', ''LOCK'', ''UNLOCK'', ''CALL'', ''EXEC'', ''EXECUTE'', ''START'',
      ''BEGIN'', ''COMMIT'', ''ROLLBACK'']"

subsection \<open>The environment\<close>

text \<open>\<^verbatim>\<open>process.env\<close>: a variable is unset (\<open>None\<close>) or holds a string.\<close>

type_synonym env = "string \<rightharpoonup> string"

definition ALLOW_INSERT :: "env \<Rightarrow> bool" where
  "ALLOW_INSERT env = (env ''MARIADB_ALLOW_INSERT'' = Some ''true'')"

definition ALLOW_UPDATE :: "env \<Rightarrow> bool" where
  "ALLOW_UPDATE env = (env ''MARIADB_ALLOW_UPDATE'' = Some ''true'')"

definition ALLOW_DELETE :: "env \<Rightarrow> bool" where
  "ALLOW_DELETE env = (env ''MARIADB_ALLOW_DELETE'' = Some ''true'')"

definition allowedCommands :: "env \<Rightarrow> string list" where
  "allowedCommands env =
     BASE_ALLOWED_COMMANDS
     @ (if ALLOW_INSERT env then [''INSERT''] else [])
     @ (if ALLOW_UPDATE env then [''UPDATE''] else [])
     @ (if ALLOW_DELETE env then [''DELETE''] else [])"

subsection \<open>The three checks and the admission decision\<close>

text \<open>
  \<open>startsWithCommand cmd n\<close> is
  \<^verbatim>\<open>normalizedQuery.startsWith(cmd + " ") || normalizedQuery === cmd\<close>.
\<close>

definition startsWithCommand :: "string \<Rightarrow> string \<Rightarrow> bool" where
  "startsWithCommand cmd n = (prefix (cmd @ '' '') n \<or> n = cmd)"

definition startsWithAllowed :: "env \<Rightarrow> string \<Rightarrow> bool" where
  "startsWithAllowed env n = list_ex (\<lambda>cmd. startsWithCommand cmd n) (allowedCommands env)"

text \<open>
  The test of \<^verbatim>\<open>new RegExp(`(^|\\s)${cmd}(\\s|$)`)\<close>, for a \<open>cmd\<close> of letters.
  \<open>word_here cmd s\<close>: \<open>s\<close> starts with \<open>cmd\<close>, followed by white space or by the end
  of the text. \<open>word_after_space cmd s\<close>: the same right after some white space character
  of \<open>s\<close>.
\<close>

definition word_here :: "string \<Rightarrow> string \<Rightarrow> bool" where
  "word_here cmd s =
     (prefix cmd s \<and> (case drop (length cmd) s of [] \<Rightarrow> True | c # _ \<Rightarrow> is_space c))"

fun word_after_space :: "string \<Rightarrow> string \<Rightarrow> bool" where
  "word_after_space cmd [] = False"
| "word_after_space cmd (c # s) = ((is_space c \<and> word_here cmd s) \<or> word_after_space cmd s)"

definition regex_test_word :: "string \<Rightarrow> string \<Rightarrow> bool" where
  "regex_test_word cmd n = (word_here cmd n \<or> word_after_space cmd n)"

definition containsDisallowed :: "string \<Rightarrow> bool" where
  "containsDisallowed n = list_ex (\<lambda>cmd. regex_test_word cmd n) DISALLOWED_COMMANDS"

text \<open>\<^verbatim>\<open>normalizedQuery.includes(";") && !normalizedQuery.endsWith(";")\<close>\<close>

definition hasMultipleStatements :: "string \<Rightarrow> bool" where
  "hasMultipleStatements n = (CHR '';'' \<in> set n \<and> \<not> suffix '';'' n)"

text \<open>
  \<open>isAlloowedQuery\<close> (the name is the source's). The compatibility check it also runs
  only writes a warning to the log and has no part in the result.
\<close>

definition isAlloowedQuery :: "env \<Rightarrow> string \<Rightarrow> bool" where
  "isAlloowedQuery env query =
     (let normalizedQuery = normalizeQuery query
      in startsWithAllowed env normalizedQuery
         \<and> \<not> containsDisallowed normalizedQuery
         \<and> \<not> hasMultipleStatements normalizedQuery)"

subsection \<open>Vocabulary of the statements\<close>

text \<open>The first white-space-delimited token of a text.\<close>

definition leading_token :: "string \<Rightarrow> string" where
  "leading_token n = takeWhile (\<lambda>c. \<not> is_space c) n"

text \<open>
  The separator rule in the specification's words: the text contains a separator that is
  not solely a single trailing one.
\<close>

definition separator_not_solely_trailing :: "string \<Rightarrow> bool" where
  "separator_not_solely_trailing n =
     (CHR '';'' \<in> set n \<and> \<not> (count_list n (CHR '';'') = 1 \<and> suffix '';'' n))"

text \<open>
  A standalone word, in the specification's words: an occurrence of the word with no
  letter, digit or underscore right before it or right after it.
\<close>

definition is_word_char :: "char \<Rightarrow> bool" where
  "is_word_char c =
     (let n = (of_char c :: nat)
      in (48 \<le> n \<and> n \<le> 57) \<or> (65 \<le> n \<and> n \<le> 90) \<or> n = 95 \<or> (97 \<le> n \<and> n \<le> 122))"

definition word_at :: "string \<Rightarrow> string \<Rightarrow> bool" where
  "word_at cmd s =
     (prefix cmd s \<and> (case drop (length cmd) s of [] \<Rightarrow> True | c # _ \<Rightarrow> \<not> is_word_char c))"

fun word_after_boundary :: "string \<Rightarrow> string \<Rightarrow> bool" where
  "word_after_boundary cmd [] = False"
| "word_after_boundary cmd (c # s) =
     ((\<not> is_word_char c \<and> word_at cmd s) \<or> word_after_boundary cmd s)"

definition standalone_word :: "string \<Rightarrow> string \<Rightarrow> bool" where
  "standalone_word cmd n = (word_at cmd n \<or> word_after_boundary cmd n)"

text \<open>The text contains a disallowed command as a standalone word.\<close>

definition contains_disallowed_word :: "string \<Rightarrow> bool" where
  "contains_disallowed_word n = list_ex (\<lambda>cmd. standalone_word cmd n) DISALLOWED_COMMANDS"

section \<open>connection.ts\<close>

subsection \<open>Values of a result\<close>

text \<open>
  A number is a double: \<open>Num x\<close> is the finite double equal to the real \<open>x\<close>, \<open>NegZero\<close> is
  \<^verbatim>\<open>-0\<close>, and \<open>Infinity\<close> and \<open>NegInfinity\<close> are the two infinite ones.
  An object is the list of its own enumerable properties, as
  \<^verbatim>\<open>Object.entries\<close> enumerates them; \<open>JInst\<close> is an instance of a class other than
  \<^verbatim>\<open>Object\<close> and \<^verbatim>\<open>Array\<close> (a \<^verbatim>\<open>Date\<close>, a \<^verbatim>\<open>Buffer\<close>), named by its class.
\<close>

datatype jsnumber = NaN | Num real | NegZero | Infinity | NegInfinity

datatype jsval =
    JNull
  | JUndefined
  | JBool bool
  | JNum jsnumber
  | JStr string
  | JBigInt int
  | JArr "jsval list"
  | JObj "(string \<times> jsval) list"
  | JInst string "(string \<times> jsval) list"

text \<open>\<^verbatim>\<open>BigInt.prototype.toString()\<close>: the decimal digits, after a minus sign when negative.\<close>

fun digits_of_nat :: "nat \<Rightarrow> string" where
  "digits_of_nat n =
     (if n < 10 then [''0123456789'' ! n]
      else digits_of_nat (n div 10) @ [''0123456789'' ! (n mod 10)])"

declare digits_of_nat.simps [simp del]

definition bigint_toString :: "int \<Rightarrow> string" where
  "bigint_toString n =
     (if n < 0 then CHR ''-'' # digits_of_nat (nat (- n)) else digits_of_nat (nat n))"

text \<open>
  The loop \<^verbatim>\<open>converted[key] = convertBigIntToString(value)\<close> over the entries of an
  object. The assignment to the key \<^verbatim>\<open>__proto__\<close> runs the setter of
  \<^verbatim>\<open>Object.prototype\<close>: it sets the prototype of the new object, or does nothing for a
  value that is no object, and creates no own property.
\<close>

definition assign_entries :: "(string \<times> jsval) list \<Rightarrow> (string \<times> jsval) list" where
  "assign_entries kvs = filter (\<lambda>(k, v). k \<noteq> ''__proto__'') kvs"

fun convertBigIntToString :: "jsval \<Rightarrow> jsval" where
  "convertBigIntToString JNull = JNull"
| "convertBigIntToString JUndefined = JUndefined"
| "convertBigIntToString (JBigInt n) = JStr (bigint_toString n)"
| "convertBigIntToString (JArr xs) = JArr (map convertBigIntToString xs)"
| "convertBigIntToString (JObj kvs) =
     JObj (assign_entries (map (\<lambda>(k, v). (k, convertBigIntToString v)) kvs))"
| "convertBigIntToString (JInst cls kvs) =
     JObj (assign_entries (map (\<lambda>(k, v). (k, convertBigIntToString v)) kvs))"
| "convertBigIntToString (JBool b) = JBool b"
| "convertBigIntToString (JNum x) = JNum x"
| "convertBigIntToString (JStr s) = JStr s"

text \<open>
  The value a decimal string denotes, and the value found in a result by following a path
  of array indices and property names: the vocabulary of the statements about
  \<open>convertBigIntToString\<close>.
\<close>

definition is_digit :: "char \<Rightarrow> bool" where
  "is_digit c = (c \<in> set ''0123456789'')"

definition digit_value :: "char \<Rightarrow> nat" where
  "digit_value c = of_char c - 48"

definition nat_of_digits :: "string \<Rightarrow> nat" where
  "nat_of_digits s = foldl (\<lambda>acc c. 10 * acc + digit_value c) 0 s"

definition int_of_decimal :: "string \<Rightarrow> int" where
  "int_of_decimal s =
     (case s of
        [] \<Rightarrow> 0
      | c # r \<Rightarrow> if c = CHR ''-'' then - int (nat_of_digits r) else int (nat_of_digits s))"

datatype step = Index nat | Key string

fun child :: "jsval \<Rightarrow> step \<Rightarrow> jsval option" where
  "child (JArr xs) (Index i) = (if i < length xs then Some (xs ! i) else None)"
| "child (JObj kvs) (Key k) = map_of kvs k"
| "child (JInst cls kvs) (Key k) = map_of kvs k"
| "child _ _ = None"

fun lookup :: "jsval \<Rightarrow> step list \<Rightarrow> jsval option" where
  "lookup v [] = Some v"
| "lookup v (s # p) = (case child v s of None \<Rightarrow> None | Some c \<Rightarrow> lookup c p)"

text \<open>
  Whether a \<^verbatim>\<open>BigInt\<close> stands anywhere in a value: where it does,
  \<^verbatim>\<open>JSON.stringify\<close> throws a \<^verbatim>\<open>TypeError\<close>.
\<close>

fun contains_bigint :: "jsval \<Rightarrow> bool" where
  "contains_bigint (JBigInt n) = True"
| "contains_bigint (JArr xs) = list_ex contains_bigint xs"
| "contains_bigint (JObj kvs) = list_ex (\<lambda>(k, v). contains_bigint v) kvs"
| "contains_bigint (JInst cls kvs) = list_ex (\<lambda>(k, v). contains_bigint v) kvs"
| "contains_bigint _ = False"

subsection \<open>Configuration from the environment\<close>

text \<open>
  \<open>Error msg\<close> is what the program itself throws, \<^verbatim>\<open>new Error(msg)\<close>; \<open>SqlError\<close> is an
  error of the driver and \<open>TypeError\<close> one of the language.
\<close>

datatype error = Error string | SqlError string | TypeError string

record config =
  host :: string
  port :: jsnumber
  user :: string
  password :: string
  database :: "string option"
  allow_insert :: bool
  allow_update :: bool
  allow_delete :: bool

text \<open>
  \<open>falsy v\<close> is \<^verbatim>\<open>!v\<close> for a variable of the environment: unset, or the empty string.
  \<open>required env name\<close> is the value of a variable that
  \<^verbatim>\<open>if (!v) throw new Error("... environment variable is required")\<close> lets through.
\<close>

definition falsy :: "string option \<Rightarrow> bool" where
  "falsy v = (case v of None \<Rightarrow> True | Some s \<Rightarrow> s = [])"

definition required :: "env \<Rightarrow> string \<Rightarrow> error + string" where
  "required env name =
     (case env name of
        None \<Rightarrow> Inl (Error (name @ '' environment variable is required''))
      | Some v \<Rightarrow>
          if v = [] then Inl (Error (name @ '' environment variable is required''))
          else Inr v)"

text \<open>
  The Number value of the integer of a sign and a magnitude, as \<^verbatim>\<open>parseInt\<close> returns it.
  A Number is a double: it has 53 significant bits, so that a magnitude of more bits is
  rounded to the nearest double, a tie to the one with an even significand, and a
  magnitude that rounds to \<open>2^1024\<close> or more is infinite. A negative zero is \<^verbatim>\<open>-0\<close>.
\<close>

fun bit_length :: "nat \<Rightarrow> nat" where
  "bit_length n = (if n = 0 then 0 else Suc (bit_length (n div 2)))"

declare bit_length.simps [simp del]

definition round_double :: "nat \<Rightarrow> nat" where
  "round_double m =
     (let e = bit_length m - 53;
          q = m div 2 ^ e;
          r = m mod 2 ^ e
      in if e = 0 then m
         else if 2 ^ e < 2 * r \<or> (2 * r = 2 ^ e \<and> odd q) then (q + 1) * 2 ^ e
         else q * 2 ^ e)"

definition to_number :: "bool \<Rightarrow> nat \<Rightarrow> jsnumber" where
  "to_number negative m =
     (if m = 0 then (if negative then NegZero else Num 0)
      else if 2 ^ 1024 \<le> round_double m then (if negative then NegInfinity else Infinity)
      else Num (if negative then - real (round_double m) else real (round_double m)))"

text \<open>
  \<^verbatim>\<open>parseInt(s, 10)\<close>: leading white space is skipped, one sign is read, then the longest
  run of decimal digits; no digit there gives \<open>NaN\<close>.
\<close>

definition parse_signed :: "string \<Rightarrow> jsnumber" where
  "parse_signed s1 =
     (let (negative, s2) =
            (case s1 of
               [] \<Rightarrow> (False, [])
             | c # r \<Rightarrow>
                 if c = CHR ''-'' then (True, r)
                 else if c = CHR ''+'' then (False, r)
                 else (False, s1));
          z = takeWhile is_digit s2
      in if z = [] then NaN else to_number negative (nat_of_digits z))"

definition parseInt10 :: "string \<Rightarrow> jsnumber" where
  "parseInt10 s = parse_signed (dropWhile is_space s)"

definition getConfigFromEnv :: "env \<Rightarrow> error + config" where
  "getConfigFromEnv env =
     (case required env ''MARIADB_HOST'' of
        Inl e \<Rightarrow> Inl e
      | Inr h \<Rightarrow>
     (case required env ''MARIADB_USER'' of
        Inl e \<Rightarrow> Inl e
      | Inr u \<Rightarrow>
     (case required env ''MARIADB_PASSWORD'' of
        Inl e \<Rightarrow> Inl e
      | Inr pw \<Rightarrow>
          Inr \<lparr> host = h,
                port = (case env ''MARIADB_PORT'' of
                          None \<Rightarrow> Num 3306
                        | Some portStr \<Rightarrow> if portStr = [] then Num 3306 else parseInt10 portStr),
                user = u,
                password = pw,
                database = env ''MARIADB_DATABASE'',
                allow_insert = (env ''MARIADB_ALLOW_INSERT'' = Some ''true''),
                allow_update = (env ''MARIADB_ALLOW_UPDATE'' = Some ''true''),
                allow_delete = (env ''MARIADB_ALLOW_DELETE'' = Some ''true'') \<rparr>)))"

subsection \<open>The driver and its pool\<close>

text \<open>
  Modelled from the spec: the connection pool of the \<^verbatim>\<open>mariadb\<close> driver, which is not
  part of the repository. The pool keeps a queue of idle sessions and hands out the one
  at its head; with none idle it opens a new session while fewer than
  \<open>connectionLimit\<close> are checked out, and otherwise the request times out. A released
  session goes to the back of the idle queue. Sessions are numbered in the order they are
  opened.
\<close>

type_synonym session = nat

type_synonym fieldinfo = string

record pool_state =
  idle :: "session list"
  active :: "session list"
  opened :: nat

definition empty_pool :: pool_state where
  "empty_pool = \<lparr> idle = [], active = [], opened = 0 \<rparr>"

definition connectionLimit :: nat where
  "connectionLimit = 2"

text \<open>
  What the program sends to the driver, in order. The outcomes the program does not
  decide are a parameter: whether \<^verbatim>\<open>createPool\<close> throws, whether opening the
  \<open>n\<close>-th session fails, and what the server answers to a statement, which may depend on
  everything sent before. An outcome on the left is the message of the driver's error.
\<close>

datatype event =
    CreatePool
  | Acquire session
  | Statement session string
  | Release session

record driver =
  createPool_error :: "config \<Rightarrow> string option"
  connect_error :: "nat \<Rightarrow> string option"
  query_outcome :: "event list \<Rightarrow> session \<Rightarrow> string \<Rightarrow> string + (jsval \<times> fieldinfo list)"

definition pool_getConnection :: "driver \<Rightarrow> pool_state \<Rightarrow> error + (session \<times> pool_state)" where
  "pool_getConnection d p =
     (case idle p of
        c # cs \<Rightarrow> Inr (c, p\<lparr> idle := cs, active := c # active p \<rparr>)
      | [] \<Rightarrow>
          if length (active p) < connectionLimit
          then (case connect_error d (opened p) of
                  Some msg \<Rightarrow> Inl (SqlError msg)
                | None \<Rightarrow>
                    Inr (opened p,
                         p\<lparr> active := opened p # active p, opened := Suc (opened p) \<rparr>))
          else Inl (SqlError ''retrieve connection from pool timeout''))"

definition pool_release :: "session \<Rightarrow> pool_state \<Rightarrow> pool_state" where
  "pool_release c p =
     (if c \<in> set (active p)
      then p\<lparr> active := remove1 c (active p), idle := idle p @ [c] \<rparr>
      else p)"

subsection \<open>Module state\<close>

text \<open>
  The two module-level variables \<^verbatim>\<open>pool\<close> and \<^verbatim>\<open>connection\<close>, and the record of what
  was sent to the driver.
\<close>

record world =
  pool :: "pool_state option"
  connection :: "session option"
  trace :: "event list"

definition initial_world :: world where
  "initial_world = \<lparr> pool = None, connection = None, trace = [] \<rparr>"

definition DEFAULT_ROW_LIMIT :: nat where
  "DEFAULT_ROW_LIMIT = 1000"

definition createConnectionPool :: "driver \<Rightarrow> env \<Rightarrow> world \<Rightarrow> (error + unit) \<times> world" where
  "createConnectionPool d env w =
     (case getConfigFromEnv env of
        Inl e \<Rightarrow> (Inl e, w)
      | Inr cfg \<Rightarrow>
          (case pool w of
             Some p \<Rightarrow> (Inr (), w)
           | None \<Rightarrow>
               (case createPool_error d cfg of
                  Some msg \<Rightarrow> (Inl (SqlError msg), w)
                | None \<Rightarrow>
                    (Inr (), w\<lparr> pool := Some empty_pool, trace := trace w @ [CreatePool] \<rparr>))))"

subsection \<open>executeQuery\<close>

text \<open>\<open>send d c sql w\<close> is \<^verbatim>\<open>await connection.query(...)\<close> on session \<open>c\<close>.\<close>

definition send ::
  "driver \<Rightarrow> session \<Rightarrow> string \<Rightarrow> world \<Rightarrow> (error + (jsval \<times> fieldinfo list)) \<times> world" where
  "send d c sql w =
     (case query_outcome d (trace w) c sql of
        Inl msg \<Rightarrow> (Inl (SqlError msg), w\<lparr> trace := trace w @ [Statement c sql] \<rparr>)
      | Inr r \<Rightarrow> (Inr r, w\<lparr> trace := trace w @ [Statement c sql] \<rparr>))"

text \<open>
  \<^verbatim>\<open>if (connection) { reuse } else { connection = await pool.getConnection(); }\<close>.
  The pool exists where this runs; on \<^verbatim>\<open>null\<close> the call would be a \<^verbatim>\<open>TypeError\<close>.
\<close>

definition acquire :: "driver \<Rightarrow> world \<Rightarrow> (error + session) \<times> world" where
  "acquire d w =
     (case connection w of
        Some c \<Rightarrow> (Inr c, w)
      | None \<Rightarrow>
          (case pool w of
             None \<Rightarrow> (Inl (TypeError ''Cannot read properties of null''), w)
           | Some p \<Rightarrow>
               (case pool_getConnection d p of
                  Inl e \<Rightarrow> (Inl e, w)
                | Inr (c, p') \<Rightarrow>
                    (Inr c, w\<lparr> pool := Some p', connection := Some c,
                                trace := trace w @ [Acquire c] \<rparr>))))"

definition use_statement :: "string \<Rightarrow> string" where
  "use_statement db = ''USE `'' @ db @ ''`''"

text \<open>\<^verbatim>\<open>if (database) { await connection.query(`USE \`${database}\``); }\<close>\<close>

definition use_database :: "driver \<Rightarrow> session \<Rightarrow> string option \<Rightarrow> world \<Rightarrow> (error + unit) \<times> world" where
  "use_database d c db w =
     (case db of
        None \<Rightarrow> (Inr (), w)
      | Some name \<Rightarrow>
          if name = [] then (Inr (), w)
          else (case send d c (use_statement name) w of
                  (Inl e, w') \<Rightarrow> (Inl e, w')
                | (Inr r, w') \<Rightarrow> (Inr (), w')))"

text \<open>
  \<^verbatim>\<open>Array.isArray(rows) && rows.length > DEFAULT_ROW_LIMIT ? rows.slice(0, DEFAULT_ROW_LIMIT) : rows\<close>
\<close>

definition limit_rows :: "jsval \<Rightarrow> jsval" where
  "limit_rows rows =
     (case rows of
        JArr xs \<Rightarrow> if length xs > DEFAULT_ROW_LIMIT then JArr (take DEFAULT_ROW_LIMIT xs) else rows
      | _ \<Rightarrow> rows)"

text \<open>
  The body of the \<^verbatim>\<open>try\<close> block. The success message is built with
  \<^verbatim>\<open>JSON.stringify(params)\<close>, which throws a \<^verbatim>\<open>TypeError\<close> on a \<^verbatim>\<open>BigInt\<close>.
\<close>

definition try_block ::
  "driver \<Rightarrow> env \<Rightarrow> string \<Rightarrow> jsval list \<Rightarrow> string option \<Rightarrow> world
     \<Rightarrow> (error + (jsval \<times> fieldinfo list)) \<times> world" where
  "try_block d env sql params db w =
     (case acquire d w of
        (Inl e, w1) \<Rightarrow> (Inl e, w1)
      | (Inr c, w1) \<Rightarrow>
     (case use_database d c db w1 of
        (Inl e, w2) \<Rightarrow> (Inl e, w2)
      | (Inr u, w2) \<Rightarrow>
          if \<not> isAlloowedQuery env sql then (Inl (Error ''Query not allowed''), w2)
          else
     (case send d c sql w2 of
        (Inl e, w3) \<Rightarrow> (Inl e, w3)
      | (Inr (rows, fields'), w3) \<Rightarrow>
          let limitedRows = limit_rows rows;
              serializedRows = convertBigIntToString limitedRows
          in if contains_bigint (JArr params)
             then (Inl (TypeError ''Do not know how to serialize a BigInt''), w3)
             else (Inr (serializedRows, fields'), w3))))"

text \<open>\<^verbatim>\<open>if (connection) { connection.release(); connection = null; }\<close>\<close>

definition release_connection :: "world \<Rightarrow> world" where
  "release_connection w =
     (case connection w of
        None \<Rightarrow> w
      | Some c \<Rightarrow>
          w\<lparr> pool := map_option (pool_release c) (pool w), connection := None,
             trace := trace w @ [Release c] \<rparr>)"

text \<open>
  A call of \<open>executeQuery\<close> from its entry to its end, with no step of another call in
  between (calls that overlap are in the subsection after this one). The pool is created
  first, outside the \<^verbatim>\<open>try\<close>; then the \<^verbatim>\<open>try\<close> block runs, the \<^verbatim>\<open>catch\<close> clause
  releases on an error and rethrows it, and the \<^verbatim>\<open>finally\<close> clause releases in every
  case.
\<close>

definition executeQuery ::
  "driver \<Rightarrow> env \<Rightarrow> string \<Rightarrow> jsval list \<Rightarrow> string option \<Rightarrow> world
     \<Rightarrow> (error + (jsval \<times> fieldinfo list)) \<times> world" where
  "executeQuery d env sql params db w =
     (case (if pool w = None then createConnectionPool d env w else (Inr (), w)) of
        (Inl e, w0) \<Rightarrow> (Inl e, w0)
      | (Inr u, w0) \<Rightarrow>
          (case try_block d env sql params db w0 of
             (r, w1) \<Rightarrow>
               let w2 = (case r of Inl e \<Rightarrow> release_connection w1 | Inr v \<Rightarrow> w1);
                   w3 = release_connection w2
               in (r, w3)))"

text \<open>The states of the module when calls run one after the other.\<close>

inductive reachable :: "world \<Rightarrow> bool" where
  initial: "reachable initial_world"
| call: "reachable w \<Longrightarrow> executeQuery d env sql params db w = (r, w') \<Longrightarrow> reachable w'"

subsection \<open>Overlapping calls\<close>

text \<open>
  \<open>executeQuery\<close> is an \<^verbatim>\<open>async\<close> function: it suspends at each \<^verbatim>\<open>await\<close>, and the steps
  of another call can run before it resumes. Between two suspensions a call runs alone.
  \<open>pc\<close> is where a call stands: not yet started, suspended at
  \<^verbatim>\<open>await pool.getConnection()\<close>, at the \<^verbatim>\<open>await\<close> of the \<^verbatim>\<open>USE\<close> statement or at the
  \<^verbatim>\<open>await\<close> of the query itself (with the answer it will resume with), or finished with
  its result. The slot \<^verbatim>\<open>connection\<close> is read where the code reads it, so a call that
  resumes finds in it what the other calls have left there.
\<close>

datatype pc =
    Start
  | AwaitConnection
  | AwaitUse "error + (jsval \<times> fieldinfo list)"
  | AwaitQuery "error + (jsval \<times> fieldinfo list)"
  | Finished "error + (jsval \<times> fieldinfo list)"

text \<open>
  An error thrown inside the \<^verbatim>\<open>try\<close> block: the \<^verbatim>\<open>catch\<close> clause releases what is in the
  slot and rethrows, then the \<^verbatim>\<open>finally\<close> clause runs. A \<^verbatim>\<open>return\<close>: the \<^verbatim>\<open>finally\<close>
  clause alone.
\<close>

definition catch_finally :: "error \<Rightarrow> world \<Rightarrow> pc \<times> world" where
  "catch_finally e w = (Finished (Inl e), release_connection (release_connection w))"

definition return_finally :: "jsval \<times> fieldinfo list \<Rightarrow> world \<Rightarrow> pc \<times> world" where
  "return_finally r w = (Finished (Inr r), release_connection w)"

text \<open>
  From the admission check to the \<^verbatim>\<open>await\<close> of \<^verbatim>\<open>connection.query({...})\<close>; a slot that
  is \<^verbatim>\<open>null\<close> by then makes the call a \<^verbatim>\<open>TypeError\<close>.
\<close>

definition issue_query :: "driver \<Rightarrow> env \<Rightarrow> string \<Rightarrow> world \<Rightarrow> pc \<times> world" where
  "issue_query d env sql w =
     (if \<not> isAlloowedQuery env sql then catch_finally (Error ''Query not allowed'') w
      else (case connection w of
              None \<Rightarrow> catch_finally (TypeError ''Cannot read properties of null'') w
            | Some c \<Rightarrow> (case send d c sql w of (r, w') \<Rightarrow> (AwaitQuery r, w'))))"

text \<open>From \<^verbatim>\<open>if (database)\<close> on, once the slot holds a session.\<close>

definition after_connection ::
  "driver \<Rightarrow> env \<Rightarrow> string \<Rightarrow> string option \<Rightarrow> world \<Rightarrow> pc \<times> world" where
  "after_connection d env sql db w =
     (case db of
        None \<Rightarrow> issue_query d env sql w
      | Some name \<Rightarrow>
          if name = [] then issue_query d env sql w
          else (case connection w of
                  None \<Rightarrow> catch_finally (TypeError ''Cannot read properties of null'') w
                | Some c \<Rightarrow>
                    (case send d c (use_statement name) w of (r, w') \<Rightarrow> (AwaitUse r, w'))))"

text \<open>From the entry of the function to its first \<^verbatim>\<open>await\<close>.\<close>

definition start_call ::
  "driver \<Rightarrow> env \<Rightarrow> string \<Rightarrow> string option \<Rightarrow> world \<Rightarrow> pc \<times> world" where
  "start_call d env sql db w =
     (case (if pool w = None then createConnectionPool d env w else (Inr (), w)) of
        (Inl e, w0) \<Rightarrow> (Finished (Inl e), w0)
      | (Inr u, w0) \<Rightarrow>
          (case connection w0 of
             Some c \<Rightarrow> after_connection d env sql db w0
           | None \<Rightarrow>
               (case pool w0 of
                  None \<Rightarrow> catch_finally (TypeError ''Cannot read properties of null'') w0
                | Some p \<Rightarrow> (AwaitConnection, w0))))"

text \<open>
  The pool settles the request of a suspended call: it hands out a session, which the call
  stores in the slot, or the request fails; on a pool at its limit the request, queued
  until then, times out.
\<close>

definition resume_connection ::
  "driver \<Rightarrow> env \<Rightarrow> string \<Rightarrow> string option \<Rightarrow> world \<Rightarrow> pc \<times> world" where
  "resume_connection d env sql db w =
     (case pool w of
        None \<Rightarrow> catch_finally (TypeError ''Cannot read properties of null'') w
      | Some p \<Rightarrow>
          (case pool_getConnection d p of
             Inl e \<Rightarrow> catch_finally e w
           | Inr (c, p') \<Rightarrow>
               after_connection d env sql db
                 (w\<lparr> pool := Some p', connection := Some c, trace := trace w @ [Acquire c] \<rparr>)))"

text \<open>The answers to the \<^verbatim>\<open>USE\<close> statement and to the query arrive.\<close>

definition resume_use ::
  "driver \<Rightarrow> env \<Rightarrow> string \<Rightarrow> error + (jsval \<times> fieldinfo list) \<Rightarrow> world \<Rightarrow> pc \<times> world" where
  "resume_use d env sql r w =
     (case r of Inl e \<Rightarrow> catch_finally e w | Inr u \<Rightarrow> issue_query d env sql w)"

definition resume_query ::
  "jsval list \<Rightarrow> error + (jsval \<times> fieldinfo list) \<Rightarrow> world \<Rightarrow> pc \<times> world" where
  "resume_query params r w =
     (case r of
        Inl e \<Rightarrow> catch_finally e w
      | Inr (rows, fields') \<Rightarrow>
          let limitedRows = limit_rows rows;
              serializedRows = convertBigIntToString limitedRows
          in if contains_bigint (JArr params)
             then catch_finally (TypeError ''Do not know how to serialize a BigInt'') w
             else return_finally (serializedRows, fields') w)"

text \<open>
  A call is its arguments \<^verbatim>\<open>sql\<close>, \<^verbatim>\<open>params\<close> and \<^verbatim>\<open>database\<close>. \<open>advance\<close> runs a call
  from where it stands to its next suspension or to its end.
\<close>

type_synonym call = "string \<times> jsval list \<times> string option"

fun advance :: "driver \<Rightarrow> env \<Rightarrow> call \<Rightarrow> pc \<times> world \<Rightarrow> pc \<times> world" where
  "advance d env (sql, params, db) (Start, w) = start_call d env sql db w"
| "advance d env (sql, params, db) (AwaitConnection, w) = resume_connection d env sql db w"
| "advance d env (sql, params, db) (AwaitUse r, w) = resume_use d env sql r w"
| "advance d env (sql, params, db) (AwaitQuery r, w) = resume_query params r w"
| "advance d env (sql, params, db) (Finished r, w) = (Finished r, w)"

text \<open>
  Several calls share the module. A schedule names, step by step, the call that runs next;
  every call starts at \<open>Start\<close>.
\<close>

definition step_call ::
  "driver \<Rightarrow> env \<Rightarrow> call list \<Rightarrow> nat \<Rightarrow> pc list \<times> world \<Rightarrow> pc list \<times> world" where
  "step_call d env calls i s =
     (case s of (pcs, w) \<Rightarrow>
        if i < length calls \<and> i < length pcs
        then (case advance d env (calls ! i) (pcs ! i, w) of (pc', w') \<Rightarrow> (pcs[i := pc'], w'))
        else (pcs, w))"

definition run_schedule ::
  "driver \<Rightarrow> env \<Rightarrow> call list \<Rightarrow> nat list \<Rightarrow> world \<Rightarrow> pc list \<times> world" where
  "run_schedule d env calls schedule w =
     fold (step_call d env calls) schedule (replicate (length calls) Start, w)"

text \<open>A call is in progress between its first step and its end.\<close>

fun in_progress :: "pc \<Rightarrow> bool" where
  "in_progress Start = False"
| "in_progress (Finished r) = False"
| "in_progress _ = True"

subsection \<open>Vocabulary of the statements\<close>

text \<open>The values the specification calls null, boolean, ordinary numeric and text.\<close>

fun is_plain :: "jsval \<Rightarrow> bool" where
  "is_plain JNull = True"
| "is_plain JUndefined = True"
| "is_plain (JBool b) = True"
| "is_plain (JNum x) = True"
| "is_plain (JStr s) = True"
| "is_plain _ = False"

text \<open>The statements that switch the database, for the \<^verbatim>\<open>database\<close> argument of a call.\<close>

definition use_statements :: "string option \<Rightarrow> string list" where
  "use_statements db =
     (case db of None \<Rightarrow> [] | Some name \<Rightarrow> if name = [] then [] else [use_statement name])"

text \<open>The sessions checked out of the pool.\<close>

definition checked_out :: "world \<Rightarrow> session list" where
  "checked_out w = (case pool w of None \<Rightarrow> [] | Some p \<Rightarrow> active p)"

section \<open>Scenarios\<close>

text \<open>
  A driver whose pool can always be created and whose sessions always open, in front of a
  server that answers by the text of the statement alone.
\<close>

definition scripted_driver :: "(string \<Rightarrow> string + (jsval \<times> fieldinfo list)) \<Rightarrow> driver" where
  "scripted_driver answer =
     \<lparr> createPool_error = (\<lambda>cfg. None),
       connect_error = (\<lambda>n. None),
       query_outcome = (\<lambda>sent c sql. answer sql) \<rparr>"

text \<open>
  A server with one table \<^verbatim>\<open>t\<close> of one row, whose \<^verbatim>\<open>id\<close> is beyond the safe integer
  range; any statement naming the table \<^verbatim>\<open>missing\<close> fails.
\<close>

definition one_row_server :: "string \<Rightarrow> string + (jsval \<times> fieldinfo list)" where
  "one_row_server sql =
     (if sql = ''SELECT * FROM missing'' then Inl ''Table missing does not exist''
      else Inr (JArr [JObj [(''id'', JBigInt 9007199254740993), (''name'', JStr ''a'')]],
                [''id'', ''name'']))"

text \<open>A server that answers every statement with the same \<open>n\<close> rows.\<close>

definition rows_server :: "nat \<Rightarrow> string \<Rightarrow> string + (jsval \<times> fieldinfo list)" where
  "rows_server n sql = Inr (JArr (replicate n (JObj [(''id'', JNum (Num 1))])), [''id''])"

definition connection_env :: env where
  "connection_env =
     [''MARIADB_HOST'' \<mapsto> ''localhost'', ''MARIADB_USER'' \<mapsto> ''reader'',
      ''MARIADB_PASSWORD'' \<mapsto> ''secret'']"

definition all_writes_env :: env where
  "all_writes_env =
     [''MARIADB_ALLOW_INSERT'' \<mapsto> ''true'', ''MARIADB_ALLOW_UPDATE'' \<mapsto> ''true'',
      ''MARIADB_ALLOW_DELETE'' \<mapsto> ''true'']"

section \<open>Admission: facts about the checks\<close>

subsection \<open>The word test\<close>

lemma word_here_iff:
  "word_here cmd s \<longleftrightarrow> (\<exists>post. s = cmd @ post \<and> (post = [] \<or> is_space (hd post)))"
  by (auto simp: word_here_def prefix_def split: list.splits)

lemma word_after_space_iff:
  "word_after_space cmd s \<longleftrightarrow>
     (\<exists>pre post. s = pre @ cmd @ post \<and> pre \<noteq> [] \<and> is_space (last pre)
        \<and> (post = [] \<or> is_space (hd post)))"
proof (induction s)
  case Nil
  then show ?case by simp
next
  case (Cons c s)
  show ?case (is "?L \<longleftrightarrow> ?R")
  proof
    assume ?L
    then consider "is_space c" "word_here cmd s" | "word_after_space cmd s" by auto
    then show ?R
    proof cases
      case 1
      then obtain post where "s = cmd @ post" "post = [] \<or> is_space (hd post)"
        by (auto simp: word_here_iff)
      with 1 have "c # s = [c] @ cmd @ post \<and> [c] \<noteq> [] \<and> is_space (last [c])
          \<and> (post = [] \<or> is_space (hd post))" by simp
      then show ?thesis by blast
    next
      case 2
      with Cons.IH obtain pre post where "s = pre @ cmd @ post" "pre \<noteq> []"
        "is_space (last pre)" "post = [] \<or> is_space (hd post)" by blast
      then have "c # s = (c # pre) @ cmd @ post \<and> c # pre \<noteq> []
          \<and> is_space (last (c # pre)) \<and> (post = [] \<or> is_space (hd post))" by simp
      then show ?thesis by blast
    qed
  next
    assume ?R
    then obtain pre post where p: "c # s = pre @ cmd @ post" "pre \<noteq> []"
        "is_space (last pre)" "post = [] \<or> is_space (hd post)" by blast
    then obtain pre' where pre: "pre = c # pre'" by (cases pre) auto
    show ?L
    proof (cases "pre' = []")
      case True
      with p pre have "is_space c" "s = cmd @ post" by auto
      with p(4) have "word_here cmd s" by (auto simp: word_here_iff)
      with \<open>is_space c\<close> show ?thesis by simp
    next
      case False
      with p pre have "s = pre' @ cmd @ post \<and> pre' \<noteq> [] \<and> is_space (last pre')
         \<and> (post = [] \<or> is_space (hd post))" by auto
      then have "word_after_space cmd s" using Cons.IH by blast
      then show ?thesis by simp
    qed
  qed
qed

text \<open>
  The regular expression finds \<open>cmd\<close> exactly where it stands between white space or the
  ends of the text.
\<close>

lemma regex_test_word_iff:
  "regex_test_word cmd n \<longleftrightarrow>
     (\<exists>pre post. n = pre @ cmd @ post \<and> (pre = [] \<or> is_space (last pre))
        \<and> (post = [] \<or> is_space (hd post)))"
  (is "?L \<longleftrightarrow> ?R")
proof
  assume ?L
  then show ?R
    unfolding regex_test_word_def word_here_iff word_after_space_iff
    by (metis append_Nil)
next
  assume ?R
  then obtain pre post where p: "n = pre @ cmd @ post" "pre = [] \<or> is_space (last pre)"
     "post = [] \<or> is_space (hd post)" by blast
  show ?L
  proof (cases "pre = []")
    case True
    with p show ?thesis unfolding regex_test_word_def word_here_iff by auto
  next
    case False
    with p show ?thesis unfolding regex_test_word_def word_after_space_iff by blast
  qed
qed

subsection \<open>The only white space of a normalised text is the single space\<close>

lemma char_of_not_space:
  assumes "(65 \<le> m \<and> m \<le> 90) \<or> (192 \<le> m \<and> m \<le> (222::nat))"
  shows "\<not> is_space (char_of m)"
proof
  assume "is_space (char_of m)"
  then have "(of_char (char_of m) :: nat)
      \<in> of_char ` set [CHR 0x09, CHR 0x0A, CHR 0x0B, CHR 0x0C, CHR 0x0D, CHR '' '', CHR 0xA0]"
    unfolding is_space_def by (rule imageI)
  with assms show False by auto
qed

lemma upper_char_space: "is_space (upper_char c) \<Longrightarrow> is_space c \<and> upper_char c = c"
proof -
  assume a: "is_space (upper_char c)"
  let ?n = "of_char c :: nat"
  show ?thesis
  proof (cases "(97 \<le> ?n \<and> ?n \<le> 122) \<or> (224 \<le> ?n \<and> ?n \<le> 254 \<and> ?n \<noteq> 247)")
    case True
    then have "upper_char c = char_of (?n - 32)"
      by (simp add: upper_char_def)
    moreover from True have "\<not> is_space (char_of (?n - 32))"
      by (intro char_of_not_space) auto
    ultimately show ?thesis using a by simp
  next
    case False
    then have "upper_char c = c" by (auto simp: upper_char_def)
    with a show ?thesis by simp
  qed
qed

lemma is_space_S: "\<not> is_space (CHR ''S'')"
  by (simp add: is_space_def)

lemma collapse_whitespace_only_space:
  "c \<in> set (collapse_whitespace s) \<Longrightarrow> is_space c \<Longrightarrow> c = CHR '' ''"
  by (induction s rule: collapse_whitespace.induct) (auto split: if_splits)

lemma set_trim: "set (trim s) \<subseteq> set s"
  unfolding trim_def by (metis set_dropWhileD set_rev subsetI)

lemma normalizeQuery_only_space:
  assumes "c \<in> set (normalizeQuery q)" "is_space c"
  shows "c = CHR '' ''"
proof -
  from assms(1) have "c \<in> (\<Union>d\<in>set (trim (collapse_whitespace
        (strip_block_comments (strip_line_comments q)))).
          set (if d = CHR 0xDF then ''SS'' else [upper_char d]))"
    by (simp only: normalizeQuery_def toUpperCase_def set_concat set_map image_image)
  then obtain d
    where d: "d \<in> set (trim (collapse_whitespace (strip_block_comments (strip_line_comments q))))"
      "c \<in> set (if d = CHR 0xDF then ''SS'' else [upper_char d])"
    by (elim UN_E)
  have "c = upper_char d"
  proof (cases "d = CHR 0xDF")
    case True
    with d(2) have "c = CHR ''S''" by simp
    with assms(2) is_space_S show ?thesis by simp
  next
    case False
    with d(2) show ?thesis by simp
  qed
  with assms(2) have sp: "is_space d" "upper_char d = d"
    using upper_char_space by blast+
  from d(1) have "d \<in> set (collapse_whitespace (strip_block_comments (strip_line_comments q)))"
    using set_trim by blast
  with sp(1) have "d = CHR '' ''" by (simp add: collapse_whitespace_only_space)
  with \<open>c = upper_char d\<close> sp(2) show ?thesis by simp
qed

subsection \<open>The leading token and the start test\<close>

lemma is_space_blank: "is_space (CHR '' '')"
  by (simp add: is_space_def)

lemma startsWithCommand_leading:
  assumes "startsWithCommand cmd n" "\<forall>c\<in>set cmd. \<not> is_space c"
  shows "leading_token n = cmd"
proof -
  from assms(1) consider r where "n = cmd @ CHR '' '' # r" | "n = cmd"
    by (auto simp: startsWithCommand_def prefix_def)
  then show ?thesis
  proof cases
    case 1
    with assms(2) show ?thesis
      by (simp add: leading_token_def takeWhile_append2 is_space_blank)
  next
    case 2
    with assms(2) show ?thesis by (simp add: leading_token_def)
  qed
qed

lemma leading_startsWithCommand:
  assumes "leading_token n = cmd" "\<forall>c\<in>set n. is_space c \<longrightarrow> c = CHR '' ''"
  shows "startsWithCommand cmd n"
proof (cases "dropWhile (\<lambda>c. \<not> is_space c) n")
  case Nil
  then have "takeWhile (\<lambda>c. \<not> is_space c) n = n"
    by (metis append_Nil2 takeWhile_dropWhile_id)
  with assms show ?thesis by (simp add: startsWithCommand_def leading_token_def)
next
  case (Cons d r)
  then have "is_space d" by (metis hd_dropWhile list.distinct(1) list.sel(1))
  moreover have "d \<in> set n" by (metis Cons list.set_intros(1) set_dropWhileD)
  ultimately have "d = CHR '' ''" using assms(2) by blast
  with Cons assms(1) have "n = cmd @ '' '' @ r"
    unfolding leading_token_def by (metis append_Cons append_Nil takeWhile_dropWhile_id)
  then show ?thesis by (simp add: startsWithCommand_def prefix_def)
qed

lemma command_has_no_space:
  assumes "cmd \<in> set (BASE_ALLOWED_COMMANDS @ [''INSERT'', ''UPDATE'', ''DELETE''])"
  shows "\<forall>c\<in>set cmd. \<not> is_space c"
proof -
  have "list_all (\<lambda>cmd. list_all (\<lambda>c. \<not> is_space c) cmd)
          (BASE_ALLOWED_COMMANDS @ [''INSERT'', ''UPDATE'', ''DELETE''])"
    by code_simp
  with assms show ?thesis unfolding list_all_iff by blast
qed

text \<open>
  On a normalised text the start test for a command is the comparison of the leading
  token with it.
\<close>

lemma startsWithCommand_iff_leading:
  assumes "cmd \<in> set (BASE_ALLOWED_COMMANDS @ [''INSERT'', ''UPDATE'', ''DELETE''])"
  shows "startsWithCommand cmd (normalizeQuery q) \<longleftrightarrow> leading_token (normalizeQuery q) = cmd"
proof
  assume "startsWithCommand cmd (normalizeQuery q)"
  then show "leading_token (normalizeQuery q) = cmd"
    using command_has_no_space[OF assms] by (rule startsWithCommand_leading)
next
  assume "leading_token (normalizeQuery q) = cmd"
  moreover have "\<forall>c\<in>set (normalizeQuery q). is_space c \<longrightarrow> c = CHR '' ''"
    using normalizeQuery_only_space by blast
  ultimately show "startsWithCommand cmd (normalizeQuery q)"
    by (rule leading_startsWithCommand)
qed

lemma allowedCommands_subset:
  "set (allowedCommands env) \<subseteq> set (BASE_ALLOWED_COMMANDS @ [''INSERT'', ''UPDATE'', ''DELETE''])"
proof -
  have "set (if b then [x] else []) \<subseteq> {x}" for b and x :: string by (cases b) simp_all
  then have "set (allowedCommands env)
      \<subseteq> set BASE_ALLOWED_COMMANDS \<union> {''INSERT''} \<union> {''UPDATE''} \<union> {''DELETE''}"
    unfolding allowedCommands_def set_append by blast
  also have "\<dots> = set (BASE_ALLOWED_COMMANDS @ [''INSERT'', ''UPDATE'', ''DELETE''])"
    unfolding set_append list.set by blast
  finally show ?thesis .
qed

lemma startsWithAllowed_iff_leading:
  "startsWithAllowed env (normalizeQuery q)
     \<longleftrightarrow> leading_token (normalizeQuery q) \<in> set (allowedCommands env)"
proof
  assume "startsWithAllowed env (normalizeQuery q)"
  then obtain cmd where cmd: "cmd \<in> set (allowedCommands env)"
      "startsWithCommand cmd (normalizeQuery q)"
    unfolding startsWithAllowed_def list_ex_iff by (elim bexE)
  from cmd(1) have "cmd \<in> set (BASE_ALLOWED_COMMANDS @ [''INSERT'', ''UPDATE'', ''DELETE''])"
    by (rule subsetD[OF allowedCommands_subset])
  then have "leading_token (normalizeQuery q) = cmd"
    using cmd(2) by (simp only: startsWithCommand_iff_leading)
  with cmd(1) show "leading_token (normalizeQuery q) \<in> set (allowedCommands env)"
    by (simp only:)
next
  assume l: "leading_token (normalizeQuery q) \<in> set (allowedCommands env)"
  then have "leading_token (normalizeQuery q)
      \<in> set (BASE_ALLOWED_COMMANDS @ [''INSERT'', ''UPDATE'', ''DELETE''])"
    by (rule subsetD[OF allowedCommands_subset])
  then have "startsWithCommand (leading_token (normalizeQuery q)) (normalizeQuery q)"
    by (simp only: startsWithCommand_iff_leading)
  with l show "startsWithAllowed env (normalizeQuery q)"
    unfolding startsWithAllowed_def list_ex_iff by (rule bexI[rotated])
qed

lemma write_command_allowed_iff:
  "''INSERT'' \<in> set (allowedCommands env) \<longleftrightarrow> ALLOW_INSERT env"
  "''UPDATE'' \<in> set (allowedCommands env) \<longleftrightarrow> ALLOW_UPDATE env"
  "''DELETE'' \<in> set (allowedCommands env) \<longleftrightarrow> ALLOW_DELETE env"
  by (simp_all add: allowedCommands_def BASE_ALLOWED_COMMANDS_def)

lemma read_command_allowed:
  "cmd \<in> set BASE_ALLOWED_COMMANDS \<Longrightarrow> cmd \<in> set (allowedCommands env)"
  by (simp add: allowedCommands_def)

lemma empty_query_refused: "\<not> isAlloowedQuery env []"
proof -
  have n: "normalizeQuery [] = []"
    by (simp add: normalizeQuery_def toUpperCase_def trim_def)
  have "[] \<notin> set (BASE_ALLOWED_COMMANDS @ [''INSERT'', ''UPDATE'', ''DELETE''])"
    by (simp add: BASE_ALLOWED_COMMANDS_def)
  then have "[] \<notin> set (allowedCommands env)"
    using allowedCommands_subset by blast
  then have "\<not> startsWithAllowed env (normalizeQuery [])"
    unfolding startsWithAllowed_iff_leading by (simp add: n leading_token_def)
  then show ?thesis by (simp add: isAlloowedQuery_def)
qed

subsection \<open>The checks and the specification's words\<close>

text \<open>
  What the code's scan finds is a standalone word, and what its separator test flags is a
  separator that is not solely a single trailing one; the converses fail.
\<close>

lemma space_not_word_char: "is_space c \<Longrightarrow> \<not> is_word_char c"
proof -
  have "list_all (\<lambda>c. \<not> is_word_char c)
      [CHR 0x09, CHR 0x0A, CHR 0x0B, CHR 0x0C, CHR 0x0D, CHR '' '', CHR 0xA0]"
    by code_simp
  then show "is_space c \<Longrightarrow> \<not> is_word_char c"
    unfolding is_space_def list_all_iff by blast
qed

lemma word_here_word_at: "word_here cmd s \<Longrightarrow> word_at cmd s"
  by (auto simp: word_here_def word_at_def space_not_word_char split: list.splits)

lemma word_after_space_boundary: "word_after_space cmd s \<Longrightarrow> word_after_boundary cmd s"
  by (induction s) (auto simp: word_here_word_at space_not_word_char)

lemma containsDisallowed_word: "containsDisallowed n \<Longrightarrow> contains_disallowed_word n"
  unfolding containsDisallowed_def contains_disallowed_word_def list_ex_iff
    regex_test_word_def standalone_word_def
  using word_here_word_at word_after_space_boundary by blast

lemma hasMultipleStatements_separator:
  "hasMultipleStatements n \<Longrightarrow> separator_not_solely_trailing n"
  by (simp add: hasMultipleStatements_def separator_not_solely_trailing_def)

text \<open>Admission of a write query, by the three checks of the code.\<close>

lemma write_query_admission_checks:
  "(leading_token (normalizeQuery query) = ''INSERT'' \<longrightarrow>
      (isAlloowedQuery env query \<longleftrightarrow>
         ALLOW_INSERT env \<and> \<not> containsDisallowed (normalizeQuery query)
         \<and> \<not> hasMultipleStatements (normalizeQuery query)))
   \<and> (leading_token (normalizeQuery query) = ''UPDATE'' \<longrightarrow>
      (isAlloowedQuery env query \<longleftrightarrow>
         ALLOW_UPDATE env \<and> \<not> containsDisallowed (normalizeQuery query)
         \<and> \<not> hasMultipleStatements (normalizeQuery query)))
   \<and> (leading_token (normalizeQuery query) = ''DELETE'' \<longrightarrow>
      (isAlloowedQuery env query \<longleftrightarrow>
         ALLOW_DELETE env \<and> \<not> containsDisallowed (normalizeQuery query)
         \<and> \<not> hasMultipleStatements (normalizeQuery query)))"
  by (simp add: isAlloowedQuery_def Let_def startsWithAllowed_iff_leading write_command_allowed_iff)

section \<open>Result values: facts\<close>

lemma digit_value_digit: "d < 10 \<Longrightarrow> digit_value (''0123456789'' ! d) = d"
proof -
  have "list_all (\<lambda>d. digit_value (''0123456789'' ! d) = d) [0..<10]"
    by code_simp
  then show "d < 10 \<Longrightarrow> digit_value (''0123456789'' ! d) = d"
    unfolding list_all_iff by simp
qed

lemma digit_not_minus: "d < 10 \<Longrightarrow> ''0123456789'' ! d \<noteq> CHR ''-''"
proof -
  have "list_all (\<lambda>d. ''0123456789'' ! d \<noteq> CHR ''-'') [0..<10]"
    by code_simp
  then show "d < 10 \<Longrightarrow> ''0123456789'' ! d \<noteq> CHR ''-''"
    unfolding list_all_iff by simp
qed

lemma nat_of_digits_snoc:
  "nat_of_digits (s @ [c]) = 10 * nat_of_digits s + digit_value c"
  by (simp add: nat_of_digits_def)

lemma nat_of_digits_digits_of_nat: "nat_of_digits (digits_of_nat n) = n"
proof (induction n rule: digits_of_nat.induct)
  case (1 n)
  show ?case
  proof (cases "n < 10")
    case True
    then show ?thesis
      by (simp add: digits_of_nat.simps[of n] nat_of_digits_def digit_value_digit)
  next
    case False
    with 1 show ?thesis
      by (simp add: digits_of_nat.simps[of n] nat_of_digits_snoc digit_value_digit)
  qed
qed

lemma hd_digits_of_nat: "digits_of_nat n \<noteq> [] \<and> hd (digits_of_nat n) \<noteq> CHR ''-''"
proof (induction n rule: digits_of_nat.induct)
  case (1 n)
  show ?case
  proof (cases "n < 10")
    case True
    then show ?thesis by (simp add: digits_of_nat.simps[of n] digit_not_minus)
  next
    case False
    with 1 show ?thesis by (simp add: digits_of_nat.simps[of n])
  qed
qed

lemma int_of_decimal_bigint_toString: "int_of_decimal (bigint_toString n) = n"
proof (cases "n < 0")
  case True
  then show ?thesis
    by (simp add: int_of_decimal_def bigint_toString_def nat_of_digits_digits_of_nat)
next
  case False
  obtain c r where cr: "digits_of_nat (nat n) = c # r" "c \<noteq> CHR ''-''"
    using hd_digits_of_nat[of "nat n"] by (cases "digits_of_nat (nat n)") auto
  have "int_of_decimal (digits_of_nat (nat n)) = int (nat_of_digits (digits_of_nat (nat n)))"
    by (simp add: int_of_decimal_def cr)
  with False show ?thesis
    by (simp add: bigint_toString_def nat_of_digits_digits_of_nat)
qed

lemma map_of_converted:
  "k \<noteq> ''__proto__'' \<Longrightarrow>
   map_of (assign_entries (map (\<lambda>(k, v). (k, f v)) kvs)) k = map_option f (map_of kvs k)"
  by (induction kvs) (auto simp: assign_entries_def)

lemma map_of_proto_dropped:
  "map_of (assign_entries kvs) ''__proto__'' = None"
  by (induction kvs) (auto simp: assign_entries_def)

lemma child_convert:
  "s \<noteq> Key ''__proto__'' \<Longrightarrow>
   child (convertBigIntToString v) s = map_option convertBigIntToString (child v s)"
  by (cases v; cases s) (simp_all add: map_of_converted)

lemma lookup_convert:
  "Key ''__proto__'' \<notin> set p \<Longrightarrow>
   lookup (convertBigIntToString v) p = map_option convertBigIntToString (lookup v p)"
proof (induction p arbitrary: v)
  case Nil
  then show ?case by simp
next
  case (Cons s p)
  from Cons.prems have "s \<noteq> Key ''__proto__''" by auto
  then have "child (convertBigIntToString v) s = map_option convertBigIntToString (child v s)"
    by (rule child_convert)
  with Cons show ?case by (cases "child v s") simp_all
qed

lemma convert_plain: "is_plain x \<Longrightarrow> convertBigIntToString x = x"
  by (cases x) simp_all

lemma convert_not_bigint: "convertBigIntToString x \<noteq> JBigInt m"
  by (cases x) simp_all

section \<open>Configuration: facts\<close>

lemma required_isl: "isl (required env name) \<longleftrightarrow> falsy (env name)"
  by (simp add: required_def falsy_def split: option.splits)

lemma bit_length_0: "bit_length 0 = 0"
  by (simp add: bit_length.simps[of 0])

lemma bit_length_le: "m < 2 ^ k \<Longrightarrow> bit_length m \<le> k"
proof (induction k arbitrary: m)
  case 0
  then show ?case by (simp add: bit_length_0)
next
  case (Suc k)
  have "m div 2 < 2 ^ k" using Suc.prems by auto
  then have "bit_length (m div 2) \<le> k" by (rule Suc.IH)
  then show ?case by (simp add: bit_length.simps[of m])
qed

lemma bit_length_gt: "2 ^ k \<le> m \<Longrightarrow> k < bit_length m"
proof (induction k arbitrary: m)
  case 0
  then show ?case by (simp add: bit_length.simps[of m])
next
  case (Suc k)
  have "2 ^ k \<le> m div 2" using Suc.prems by auto
  then have "k < bit_length (m div 2)" by (rule Suc.IH)
  moreover have "m \<noteq> 0"
  proof
    assume "m = 0"
    with Suc.prems show False by simp
  qed
  ultimately show ?case by (simp add: bit_length.simps[of m])
qed

lemma round_double_exact: "m \<le> 2 ^ 53 \<Longrightarrow> round_double m = m"
proof (cases "m = 2 ^ 53")
  case True
  have "m < 2 ^ 54" using True by simp
  then have "bit_length m \<le> 54" by (rule bit_length_le)
  then consider "bit_length m - 53 = 0" | "bit_length m - 53 = 1" by linarith
  then show ?thesis
    by cases (simp_all add: round_double_def Let_def True)
next
  case False
  assume "m \<le> 2 ^ 53"
  with False have "m < 2 ^ 53" by simp
  then have "bit_length m \<le> 53" by (rule bit_length_le)
  then show ?thesis by (simp add: round_double_def)
qed

lemma round_double_large:
  assumes "2 ^ 1024 \<le> m"
  shows "2 ^ 1024 \<le> round_double m"
proof -
  define e where "e = bit_length m - 53"
  have b: "1024 < bit_length m" using assms by (rule bit_length_gt)
  then have e: "e \<noteq> 0" "971 < e" by (simp_all add: e_def)
  have "\<not> m < 2 ^ (bit_length m - 1)"
  proof
    assume "m < 2 ^ (bit_length m - 1)"
    then have "bit_length m \<le> bit_length m - 1" by (rule bit_length_le)
    with b show False by simp
  qed
  then have "2 ^ (e + 52) \<le> m" using b by (simp add: e_def)
  then have "(2 ^ (e + 52) :: nat) div 2 ^ e \<le> m div 2 ^ e" by (rule div_le_mono)
  then have q: "2 ^ 52 \<le> m div 2 ^ e" by (simp add: power_add)
  have "(2::nat) ^ 1024 \<le> 2 ^ (52 + e)" using e(2) by (intro power_increasing) simp_all
  also have "\<dots> = 2 ^ 52 * 2 ^ e" by (simp add: power_add)
  also have "\<dots> \<le> (m div 2 ^ e) * 2 ^ e" using q by (rule mult_le_mono1)
  finally have l: "2 ^ 1024 \<le> (m div 2 ^ e) * 2 ^ e" .
  also have "\<dots> \<le> (m div 2 ^ e + 1) * 2 ^ e" by simp
  finally have u: "2 ^ 1024 \<le> (m div 2 ^ e + 1) * 2 ^ e" .
  show ?thesis
    unfolding round_double_def Let_def e_def[symmetric] using e(1) l u
    by (simp only: if_False split: if_splits) auto
qed

text \<open>Up to \<open>2^53\<close> in magnitude the Number is the integer itself.\<close>

lemma to_number_exact:
  assumes "0 < m" "m \<le> 2 ^ 53"
  shows "to_number negative m = Num (if negative then - real m else real m)"
proof -
  have "(2::nat) ^ 53 < 2 ^ 1024" by (rule power_strict_increasing) simp_all
  with assms(2) have "\<not> 2 ^ 1024 \<le> m" by simp
  with assms show ?thesis by (simp add: to_number_def round_double_exact)
qed

text \<open>From \<open>2^1024\<close> on it is infinite.\<close>

lemma to_number_infinite:
  assumes "2 ^ 1024 \<le> m"
  shows "to_number negative m = (if negative then NegInfinity else Infinity)"
proof -
  have "m \<noteq> 0" using assms by auto
  with round_double_large[OF assms] show ?thesis by (simp add: to_number_def)
qed

text \<open>Between the two the Number is a rounded one; a negative zero is \<^verbatim>\<open>-0\<close>.\<close>

lemma to_number_examples:
  "to_number False 9007199254740993 = Num 9007199254740992
   \<and> to_number False 9007199254740995 = Num 9007199254740996
   \<and> to_number True 0 = NegZero"
  by (simp add: to_number_def round_double_def bit_length.simps Let_def)

lemma digit_not_space: "is_digit c \<Longrightarrow> \<not> is_space c"
  by (auto simp: is_digit_def is_space_def)

lemma digit_not_sign: "is_digit c \<Longrightarrow> c \<noteq> CHR ''-'' \<and> c \<noteq> CHR ''+''"
  by (auto simp: is_digit_def)

lemma sign_not_space: "\<not> is_space (CHR ''-'')" "\<not> is_space (CHR ''+'')"
  by (simp_all add: is_space_def)

lemma dropWhile_spaces:
  assumes "\<forall>c\<in>set ws. is_space c" "t = [] \<or> \<not> is_space (hd t)"
  shows "dropWhile is_space (ws @ t) = t"
proof -
  have "dropWhile is_space (ws @ t) = dropWhile is_space t"
    using assms(1) by (simp add: dropWhile_append)
  also have "\<dots> = t" using assms(2) by (cases t) auto
  finally show ?thesis .
qed

lemma takeWhile_digits:
  assumes "\<forall>c\<in>set ds. is_digit c" "rest = [] \<or> \<not> is_digit (hd rest)"
  shows "takeWhile is_digit (ds @ rest) = ds"
proof -
  have "takeWhile is_digit (ds @ rest) = ds @ takeWhile is_digit rest"
    using assms(1) by (simp add: takeWhile_append2)
  moreover have "takeWhile is_digit rest = []" using assms(2) by (cases rest) auto
  ultimately show ?thesis by simp
qed

lemma parseInt10_digits:
  assumes "\<forall>c\<in>set ws. is_space c" "sign \<in> set [[], ''+'', ''-'']" "ds \<noteq> []"
    "\<forall>c\<in>set ds. is_digit c" "rest = [] \<or> \<not> is_digit (hd rest)"
  shows "parseInt10 (ws @ sign @ ds @ rest) = to_number (sign = ''-'') (nat_of_digits ds)"
proof -
  obtain d ds' where ds: "ds = d # ds'" using assms(3) by (cases ds) auto
  with assms(4) have d: "is_digit d" by simp
  have t: "takeWhile is_digit (ds @ rest) = ds" using assms(4,5) by (rule takeWhile_digits)
  have "sign @ ds @ rest = [] \<or> \<not> is_space (hd (sign @ ds @ rest))"
    using assms(2) by (auto simp: ds digit_not_space[OF d] sign_not_space)
  with assms(1) have "dropWhile is_space (ws @ sign @ ds @ rest) = sign @ ds @ rest"
    by (rule dropWhile_spaces)
  then have p: "parseInt10 (ws @ sign @ ds @ rest) = parse_signed (sign @ ds @ rest)"
    by (simp only: parseInt10_def)
  from assms(2) consider "sign = []" | "sign = ''+''" | "sign = ''-''" by auto
  then have "parse_signed (sign @ ds @ rest) = to_number (sign = ''-'') (nat_of_digits ds)"
  proof cases
    case 1
    have "parse_signed (d # ds' @ rest) = to_number False (nat_of_digits ds)"
      using t digit_not_sign[OF d] by (simp add: parse_signed_def ds)
    with 1 show ?thesis by (simp add: ds)
  next
    case 2
    with t assms(3) show ?thesis by (simp add: parse_signed_def)
  next
    case 3
    with t assms(3) show ?thesis by (simp add: parse_signed_def)
  qed
  with p show ?thesis by simp
qed

lemma parseInt10_NaN:
  assumes "\<forall>c\<in>set ws. is_space c" "sign \<in> set [[], ''+'', ''-'']"
    "sign = [] \<longrightarrow> rest = [] \<or> (\<not> is_space (hd rest) \<and> hd rest \<noteq> CHR ''+'' \<and> hd rest \<noteq> CHR ''-'')"
    "rest = [] \<or> \<not> is_digit (hd rest)"
  shows "parseInt10 (ws @ sign @ rest) = NaN"
proof -
  have t: "takeWhile is_digit rest = []" using assms(4) by (cases rest) auto
  have "sign @ rest = [] \<or> \<not> is_space (hd (sign @ rest))"
    using assms(2,3) by (auto simp: sign_not_space)
  with assms(1) have "dropWhile is_space (ws @ sign @ rest) = sign @ rest"
    by (rule dropWhile_spaces)
  then have p: "parseInt10 (ws @ sign @ rest) = parse_signed (sign @ rest)"
    by (simp only: parseInt10_def)
  from assms(2) consider "sign = []" | "sign = ''+''" | "sign = ''-''" by auto
  then have "parse_signed (sign @ rest) = NaN"
  proof cases
    case 1
    with assms(3) have "rest = [] \<or> (hd rest \<noteq> CHR ''+'' \<and> hd rest \<noteq> CHR ''-'')" by auto
    with 1 t show ?thesis by (cases rest) (auto simp: parse_signed_def)
  next
    case 2
    with t show ?thesis by (simp add: parse_signed_def)
  next
    case 3
    with t show ?thesis by (simp add: parse_signed_def)
  qed
  with p show ?thesis by simp
qed

lemma getConfigFromEnv_error:
  "getConfigFromEnv env \<noteq> Inl (Error ''Query not allowed'')"
  by (simp add: getConfigFromEnv_def required_def split: option.splits sum.splits)

section \<open>executeQuery: the shape of a run\<close>

lemma send_world:
  assumes "send d c s w = (r, w1)"
  shows "w1 = w\<lparr>trace := trace w @ [Statement c s]\<rparr>" and "r \<noteq> Inl (Error m)"
  using assms by (auto simp: send_def split: sum.splits)

lemma use_database_world:
  assumes "use_database d c db w = (r, w1)"
  shows "w1 = w\<lparr>trace := trace w @ map (Statement c) (use_statements db)\<rparr>"
    and "r \<noteq> Inl (Error m)"
    and "isl r \<Longrightarrow> use_statements db \<noteq> []"
  using assms
  by (auto simp: use_database_def use_statements_def send_def split: option.splits if_splits sum.splits)

lemma pool_getConnection_active:
  assumes "pool_getConnection d p = Inr (c, p')"
  shows "active p' = c # active p"
  using assms
  by (auto simp: pool_getConnection_def split: list.splits if_splits option.splits)

lemma pool_getConnection_error:
  "pool_getConnection d p \<noteq> Inl (Error m)"
  by (auto simp: pool_getConnection_def split: list.splits if_splits option.splits)

lemma acquire_world:
  assumes "connection w = None" "acquire d w = (r, w1)"
  shows "(isl r \<and> r \<noteq> Inl (Error m) \<and> w1 = w)
       \<or> (\<exists>c p p'. r = Inr c \<and> pool w = Some p \<and> pool_getConnection d p = Inr (c, p')
             \<and> w1 = w\<lparr>pool := Some p', connection := Some c, trace := trace w @ [Acquire c]\<rparr>)"
  using assms pool_getConnection_error[of d _ m]
  by (auto simp: acquire_def split: option.splits sum.splits)


lemma release_connection_Some:
  assumes "connection w = Some c" "pool w = Some p"
  shows "release_connection w
     = w\<lparr>pool := Some (pool_release c p), connection := None, trace := trace w @ [Release c]\<rparr>"
  using assms by (simp add: release_connection_def)

lemma release_connection_None:
  "connection w = None \<Longrightarrow> release_connection w = w"
  by (simp add: release_connection_def)

text \<open>The outcome of the body of the try block, from a state with an empty slot.\<close>

lemma try_block_world:
  assumes "connection w = None" "try_block d env sql params db w = (r, w1)"
  shows "(isl r \<and> r \<noteq> Inl (Error ''Query not allowed'') \<and> w1 = w)
       \<or> (\<exists>c p p' sent. pool w = Some p \<and> pool_getConnection d p = Inr (c, p')
             \<and> w1 = w\<lparr>pool := Some p', connection := Some c,
                       trace := trace w @ Acquire c # map (Statement c) sent\<rparr>
             \<and> ((sent = use_statements db \<and> sent \<noteq> [] \<and> isl r \<and> r \<noteq> Inl (Error ''Query not allowed''))
                \<or> (sent = use_statements db \<and> \<not> isAlloowedQuery env sql
                      \<and> r = Inl (Error ''Query not allowed''))
                \<or> (sent = use_statements db @ [sql] \<and> isAlloowedQuery env sql
                      \<and> r \<noteq> Inl (Error ''Query not allowed''))))"
proof -
  obtain ra wa where a: "acquire d w = (ra, wa)" by force
  from acquire_world[OF assms(1) a, of "''Query not allowed''"]
  consider (fail) "isl ra" "ra \<noteq> Inl (Error ''Query not allowed'')" "wa = w"
    | (ok) c p p' where "ra = Inr c" "pool w = Some p" "pool_getConnection d p = Inr (c, p')"
        "wa = w\<lparr>pool := Some p', connection := Some c, trace := trace w @ [Acquire c]\<rparr>"
    by blast
  then show ?thesis
  proof cases
    case fail
    then obtain e where "ra = Inl e" by (cases ra) auto
    with fail a assms(2) show ?thesis by (auto simp: try_block_def)
  next
    case ok
    obtain ru wu where u: "use_database d c db wa = (ru, wu)" by force
    note uw = use_database_world[OF u]
    have wu: "wu = w\<lparr>pool := Some p', connection := Some c,
         trace := trace w @ Acquire c # map (Statement c) (use_statements db)\<rparr>"
      using uw(1) ok(4) by simp
    show ?thesis
    proof (cases ru)
      case (Inl e)
      with a ok u assms(2) have "r = Inl e" "w1 = wu" by (auto simp: try_block_def)
      moreover from Inl uw(2)[of "''Query not allowed''"] uw(3)
        have "e \<noteq> Error ''Query not allowed''" "use_statements db \<noteq> []" by auto
      ultimately show ?thesis using ok(2,3) wu
        by (intro disjI2 exI[of _ c] exI[of _ p] exI[of _ p'] exI[of _ "use_statements db"])
           simp
    next
      case (Inr x)
      show ?thesis
      proof (cases "isAlloowedQuery env sql")
        case False
        with a ok u Inr assms(2) have "r = Inl (Error ''Query not allowed'')" "w1 = wu"
          by (auto simp: try_block_def)
        with False ok(2,3) wu show ?thesis
          by (intro disjI2 exI[of _ c] exI[of _ p] exI[of _ p'] exI[of _ "use_statements db"])
             simp
      next
        case True
        obtain rs ws where s: "send d c sql wu = (rs, ws)" by force
        note sw = send_world[OF s]
        have ws: "ws = w\<lparr>pool := Some p', connection := Some c,
           trace := trace w @ Acquire c # map (Statement c) (use_statements db @ [sql])\<rparr>"
          using sw(1) wu by simp
        from a ok u Inr True s assms(2) sw(2)[of "''Query not allowed''"]
        have "w1 = ws" "r \<noteq> Inl (Error ''Query not allowed'')"
          by (auto simp: try_block_def Let_def split: sum.splits prod.splits if_splits)
        with True ok(2,3) ws show ?thesis
          by (intro disjI2 exI[of _ c] exI[of _ p] exI[of _ p']
                exI[of _ "use_statements db @ [sql]"])
             simp
      qed
    qed
  qed
qed

lemma createConnectionPool_world:
  assumes "pool w = None" "createConnectionPool d env w = (r0, w0)"
  shows "(isl r0 \<and> r0 \<noteq> Inl (Error ''Query not allowed'') \<and> w0 = w)
       \<or> (r0 = Inr () \<and> w0 = w\<lparr>pool := Some empty_pool, trace := trace w @ [CreatePool]\<rparr>)"
  using assms getConfigFromEnv_error[of env]
  by (auto simp: createConnectionPool_def split: sum.splits option.splits)

lemma pool_release_acquired:
  assumes "pool_getConnection d p = Inr (c, p')"
  shows "active (pool_release c p') = active p" and "idle (pool_release c p') = idle p' @ [c]"
  using pool_getConnection_active[OF assms] by (simp_all add: pool_release_def)

text \<open>Every run of \<open>executeQuery\<close> from a state with an empty slot has one of two shapes.\<close>

lemma executeQuery_world:
  assumes "connection w = None" "executeQuery d env sql params db w = (r, w')"
  shows "(isl r \<and> r \<noteq> Inl (Error ''Query not allowed'') \<and> connection w' = None
           \<and> checked_out w' = checked_out w
           \<and> (\<exists>pre. set pre \<subseteq> {CreatePool} \<and> trace w' = trace w @ pre))
       \<or> (\<exists>pre c p p' sent.
             set pre \<subseteq> {CreatePool}
             \<and> (pool w = Some p \<or> pool w = None \<and> p = empty_pool)
             \<and> pool_getConnection d p = Inr (c, p')
             \<and> pool w' = Some (pool_release c p') \<and> connection w' = None
             \<and> trace w' = trace w @ pre @ Acquire c # map (Statement c) sent @ [Release c]
             \<and> ((sent = use_statements db \<and> sent \<noteq> [] \<and> isl r
                    \<and> r \<noteq> Inl (Error ''Query not allowed''))
                \<or> (sent = use_statements db \<and> \<not> isAlloowedQuery env sql
                      \<and> r = Inl (Error ''Query not allowed''))
                \<or> (sent = use_statements db @ [sql] \<and> isAlloowedQuery env sql
                      \<and> r \<noteq> Inl (Error ''Query not allowed''))))"
  (is "?A r w' \<or> ?B r w'")
proof -
  obtain r0 w0 where e: "(if pool w = None then createConnectionPool d env w else (Inr (), w)) = (r0, w0)"
    by force
  then consider (cfg) "isl r0" "r0 \<noteq> Inl (Error ''Query not allowed'')" "w0 = w"
    | (old) p where "r0 = Inr ()" "pool w = Some p" "w0 = w"
    | (new) "r0 = Inr ()" "pool w = None"
        "w0 = w\<lparr>pool := Some empty_pool, trace := trace w @ [CreatePool]\<rparr>"
    using createConnectionPool_world[of w d env r0 w0] by (cases "pool w") auto
  then show ?thesis
  proof cases
    case cfg
    then obtain e0 where e0: "r0 = Inl e0" "e0 \<noteq> Error ''Query not allowed''"
      by (cases r0) auto
    with cfg e assms(2) have "r = Inl e0" "w' = w" by (auto simp: executeQuery_def)
    with e0 assms(1) have "?A r w'" by simp
    then show ?thesis by (rule disjI1)
  next
    case old
    obtain rt wt where t: "try_block d env sql params db w = (rt, wt)" by force
    have r: "r = rt" and w': "w' = release_connection (case rt of Inl e \<Rightarrow> release_connection wt | Inr v \<Rightarrow> wt)"
      using assms(2) e old t by (auto simp: executeQuery_def Let_def)
    from try_block_world[OF assms(1) t]
    consider (fail) "isl rt" "rt \<noteq> Inl (Error ''Query not allowed'')" "wt = w"
      | (got) c q p' sent where "pool w = Some q" "pool_getConnection d q = Inr (c, p')"
          "wt = w\<lparr>pool := Some p', connection := Some c,
                   trace := trace w @ Acquire c # map (Statement c) sent\<rparr>"
          "sent = use_statements db \<and> sent \<noteq> [] \<and> isl rt \<and> rt \<noteq> Inl (Error ''Query not allowed'')
             \<or> sent = use_statements db \<and> \<not> isAlloowedQuery env sql \<and> rt = Inl (Error ''Query not allowed'')
             \<or> sent = use_statements db @ [sql] \<and> isAlloowedQuery env sql \<and> rt \<noteq> Inl (Error ''Query not allowed'')"
      by blast
    then show ?thesis
    proof cases
      case fail
      then obtain e1 where "rt = Inl e1" by (cases rt) auto
      with fail w' assms(1) have "w' = w" by (simp add: release_connection_None)
      with fail r assms(1) have "?A r w'" by simp
      then show ?thesis by (rule disjI1)
    next
      case got
      have "w' = w\<lparr>pool := Some (pool_release c p'), connection := None,
                 trace := trace w @ Acquire c # map (Statement c) sent @ [Release c]\<rparr>"
        using w' got(3) by (cases rt) (simp_all add: release_connection_def)
      with got(1,2,4) r have "?B r w'"
        by (intro exI[of _ "[]"] exI[of _ c] exI[of _ q] exI[of _ p'] exI[of _ sent]) simp
      then show ?thesis by (rule disjI2)
    qed
  next
    case new
    obtain rt wt where t: "try_block d env sql params db w0 = (rt, wt)" by force
    have r: "r = rt" and w': "w' = release_connection (case rt of Inl e \<Rightarrow> release_connection wt | Inr v \<Rightarrow> wt)"
      using assms(2) e new t by (auto simp: executeQuery_def Let_def)
    have c0: "connection w0 = None" using new(3) assms(1) by simp
    from try_block_world[OF c0 t]
    consider (fail) "isl rt" "rt \<noteq> Inl (Error ''Query not allowed'')" "wt = w0"
      | (got) c q p' sent where "pool w0 = Some q" "pool_getConnection d q = Inr (c, p')"
          "wt = w0\<lparr>pool := Some p', connection := Some c,
                   trace := trace w0 @ Acquire c # map (Statement c) sent\<rparr>"
          "sent = use_statements db \<and> sent \<noteq> [] \<and> isl rt \<and> rt \<noteq> Inl (Error ''Query not allowed'')
             \<or> sent = use_statements db \<and> \<not> isAlloowedQuery env sql \<and> rt = Inl (Error ''Query not allowed'')
             \<or> sent = use_statements db @ [sql] \<and> isAlloowedQuery env sql \<and> rt \<noteq> Inl (Error ''Query not allowed'')"
      by blast
    then show ?thesis
    proof cases
      case fail
      then obtain e1 where "rt = Inl e1" by (cases rt) auto
      with fail w' c0 have "w' = w0" by (simp add: release_connection_None)
      with fail r new assms(1) have "?A r w'"
        by (simp add: checked_out_def empty_pool_def)
      then show ?thesis by (rule disjI1)
    next
      case got
      from got(1) new(3) have q: "q = empty_pool" by simp
      have "w' = w0\<lparr>pool := Some (pool_release c p'), connection := None,
                 trace := trace w0 @ Acquire c # map (Statement c) sent @ [Release c]\<rparr>"
        using w' got(3) by (cases rt) (simp_all add: release_connection_def)
      with new(2,3) got(2,4) q r have "?B r w'"
        by (intro exI[of _ "[CreatePool]"] exI[of _ c] exI[of _ q] exI[of _ p'] exI[of _ sent]) simp
      then show ?thesis by (rule disjI2)
    qed
  qed
qed

lemma count_list_others:
  assumes "set pre \<subseteq> {CreatePool}"
  shows "count_list (pre @ Acquire c # map (Statement c) sent @ [Release c]) (Release c')
           = (if c' = c then 1 else 0)"
    and "count_list (pre @ Acquire c # map (Statement c) sent @ [Release c]) (Acquire c')
           = (if c' = c then 1 else 0)"
proof -
  have "Release c' \<notin> set pre" "Acquire c' \<notin> set pre" using assms by auto
  moreover have "Release c' \<notin> set (map (Statement c) sent)"
    "Acquire c' \<notin> set (map (Statement c) sent)" by auto
  ultimately have z: "count_list pre (Release c') = 0" "count_list pre (Acquire c') = 0"
    "count_list (map (Statement c) sent) (Release c') = 0"
    "count_list (map (Statement c) sent) (Acquire c') = 0"
    by (simp_all only: count_list_0_iff not_False_eq_True)
  show "count_list (pre @ Acquire c # map (Statement c) sent @ [Release c]) (Release c')
           = (if c' = c then 1 else 0)"
    using z by auto
  show "count_list (pre @ Acquire c # map (Statement c) sent @ [Release c]) (Acquire c')
           = (if c' = c then 1 else 0)"
    using z by auto
qed

lemma count_list_pre:
  assumes "set pre \<subseteq> {CreatePool}"
  shows "count_list pre (Release c') = 0" "count_list pre (Acquire c') = 0"
proof -
  have "Release c' \<notin> set pre" "Acquire c' \<notin> set pre" using assms by auto
  then show "count_list pre (Release c') = 0" "count_list pre (Acquire c') = 0"
    by (simp_all only: count_list_0_iff not_False_eq_True)
qed

lemma executeQuery_cases:
  assumes "connection w = None" "executeQuery d env sql params db w = (r, w')"
  obtains (no_session) pre where "isl r" "r \<noteq> Inl (Error ''Query not allowed'')"
      "connection w' = None" "checked_out w' = checked_out w"
      "set pre \<subseteq> {CreatePool}" "trace w' = trace w @ pre"
  | (session) pre c p p' sent where "set pre \<subseteq> {CreatePool}"
      "pool w = Some p \<or> pool w = None \<and> p = empty_pool"
      "pool_getConnection d p = Inr (c, p')" "pool w' = Some (pool_release c p')"
      "connection w' = None"
      "trace w' = trace w @ pre @ Acquire c # map (Statement c) sent @ [Release c]"
      "(sent = use_statements db \<and> sent \<noteq> [] \<and> isl r \<and> r \<noteq> Inl (Error ''Query not allowed''))
       \<or> (sent = use_statements db \<and> \<not> isAlloowedQuery env sql
             \<and> r = Inl (Error ''Query not allowed''))
       \<or> (sent = use_statements db @ [sql] \<and> isAlloowedQuery env sql
             \<and> r \<noteq> Inl (Error ''Query not allowed''))"
  using executeQuery_world[OF assms] by blast

text \<open>
  The slot is empty in every state the module reaches by calls that run one after the
  other.
\<close>

lemma executeQuery_slot_empty:
  assumes "connection w = None" "executeQuery d env sql params db w = (r, w')"
  shows "connection w' = None"
  using assms by (cases rule: executeQuery_cases)

text \<open>
  What a successful call returns: the answer of the server to the query, cut by
  \<open>limit_rows\<close> and converted. The cut is at the constant, whatever the environment.
\<close>

lemma try_block_rows:
  assumes "try_block d env sql params db w = (Inr (rows, f), w1)"
  shows "\<exists>sent c raw. query_outcome d sent c sql = Inr (raw, f)
           \<and> rows = convertBigIntToString (limit_rows raw)"
proof -
  from assms obtain c w2 raw w3 where "send d c sql w2 = (Inr (raw, f), w3)"
    "rows = convertBigIntToString (limit_rows raw)"
    by (auto simp: try_block_def Let_def split: prod.splits sum.splits if_splits)
  then show ?thesis
    by (auto simp: send_def split: sum.splits)
qed

lemma executeQuery_rows:
  assumes "executeQuery d env sql params db w = (Inr (rows, f), w')"
  shows "\<exists>sent c raw. query_outcome d sent c sql = Inr (raw, f)
           \<and> rows = convertBigIntToString (limit_rows raw)"
proof -
  from assms obtain w0 w1 where "try_block d env sql params db w0 = (Inr (rows, f), w1)"
    by (auto simp: executeQuery_def Let_def split: prod.splits sum.splits)
  then show ?thesis by (rule try_block_rows)
qed

lemma limited_rows:
  "convertBigIntToString (limit_rows (JArr xs)) = JArr (map convertBigIntToString (take 1000 xs))"
  by (simp add: limit_rows_def DEFAULT_ROW_LIMIT_def)

lemma reachable_slot_empty: "reachable w \<Longrightarrow> connection w = None"
proof (induction rule: reachable.induct)
  case initial
  show ?case by (simp add: initial_world_def)
next
  case (call w d env sql params db r w')
  then show ?case by (simp add: executeQuery_slot_empty)
qed

section \<open>executeQuery: calls that overlap\<close>

lemma send_connection:
  "send d c s w = (r, w') \<Longrightarrow> connection w' = connection w \<and> pool w' = pool w"
  by (auto simp: send_def split: sum.splits)

lemma try_block_reuse:
  assumes "connection w = Some c"
  shows "try_block d env sql params db w =
     (case use_database d c db w of
        (Inl e, w2) \<Rightarrow> (Inl e, w2)
      | (Inr u, w2) \<Rightarrow> try_block d env sql params None w2)"
proof -
  have a: "acquire d w = (Inr c, w)" using assms by (simp add: acquire_def)
  have u: "connection w2 = Some c" if "use_database d c db w = (r, w2)" for r w2
    using that assms send_connection[of d c _ w]
    by (auto simp: use_database_def split: option.splits if_splits prod.splits sum.splits)
  have b: "try_block d env sql params None w2 =
      (if \<not> isAlloowedQuery env sql then (Inl (Error ''Query not allowed''), w2)
          else
     (case send d c sql w2 of
        (Inl e, w3) \<Rightarrow> (Inl e, w3)
      | (Inr (rows, fields'), w3) \<Rightarrow>
          let limitedRows = limit_rows rows;
              serializedRows = convertBigIntToString limitedRows
          in if contains_bigint (JArr params)
             then (Inl (TypeError ''Do not know how to serialize a BigInt''), w3)
             else (Inr (serializedRows, fields'), w3)))"
    if "connection w2 = Some c" for w2
    using that by (simp add: try_block_def acquire_def use_database_def)
  obtain r w2 where r: "use_database d c db w = (r, w2)" by fastforce
  show ?thesis
  proof (cases r)
    case (Inl e)
    with r a show ?thesis by (simp add: try_block_def)
  next
    case (Inr x)
    with r a b[OF u[OF r]] show ?thesis by (simp add: try_block_def)
  qed
qed

lemma issue_query_steps:
  assumes "connection w = Some c"
  shows "advance d env (sql, params, db) (issue_query d env sql w)
     = (case try_block d env sql params None w of
          (r, w') \<Rightarrow>
            (Finished r,
             release_connection (case r of Inl e \<Rightarrow> release_connection w' | Inr v \<Rightarrow> w')))"
proof (cases "isAlloowedQuery env sql")
  case False
  with assms show ?thesis
    by (simp add: issue_query_def catch_finally_def try_block_def acquire_def use_database_def)
next
  case True
  obtain r w' where s: "send d c sql w = (r, w')" by fastforce
  show ?thesis
  proof (cases r)
    case (Inl e)
    with s True assms show ?thesis
      by (simp add: issue_query_def catch_finally_def try_block_def acquire_def
          use_database_def resume_query_def)
  next
    case (Inr x)
    obtain rows fields' where x: "x = (rows, fields')" by (cases x)
    with Inr s True assms show ?thesis
      by (simp add: issue_query_def catch_finally_def return_finally_def try_block_def
          acquire_def use_database_def resume_query_def Let_def)
  qed
qed

lemma advance_Finished: "advance d env (sql, params, db) (Finished r, w) = (Finished r, w)"
  by simp

lemma after_connection_steps:
  assumes "connection w = Some c"
  shows "advance d env (sql, params, db)
           (advance d env (sql, params, db) (after_connection d env sql db w))
     = (case try_block d env sql params db w of
          (r, w') \<Rightarrow>
            (Finished r,
             release_connection (case r of Inl e \<Rightarrow> release_connection w' | Inr v \<Rightarrow> w')))"
proof (cases "use_statements db")
  case Nil
  then have a: "after_connection d env sql db w = issue_query d env sql w"
    by (auto simp: after_connection_def use_statements_def split: option.splits if_splits)
  from Nil have u: "use_database d c db w = (Inr (), w)"
    by (auto simp: use_database_def use_statements_def split: option.splits if_splits)
  have t: "try_block d env sql params db w = try_block d env sql params None w"
    by (simp add: try_block_reuse[OF assms] u)
  obtain r w' where tb: "try_block d env sql params None w = (r, w')" by fastforce
  show ?thesis
    by (simp add: a t issue_query_steps[OF assms] tb)
next
  case (Cons x xs)
  then obtain name where n: "db = Some name" "name \<noteq> []"
    by (auto simp: use_statements_def split: option.splits if_splits)
  obtain r w1 where s: "send d c (use_statement name) w = (r, w1)" by fastforce
  from send_connection[OF s] assms have c1: "connection w1 = Some c" by simp
  from n s assms have a: "after_connection d env sql db w = (AwaitUse r, w1)"
    by (simp add: after_connection_def)
  show ?thesis
  proof (cases r)
    case (Inl e)
    with n s have u: "use_database d c db w = (Inl e, w1)" by (simp add: use_database_def)
    show ?thesis
      by (simp add: a Inl resume_use_def catch_finally_def try_block_reuse[OF assms] u)
  next
    case (Inr y)
    with n s have u: "use_database d c db w = (Inr (), w1)" by (simp add: use_database_def)
    show ?thesis
      by (simp add: a Inr resume_use_def try_block_reuse[OF assms] u issue_query_steps[OF c1])
  qed
qed

text \<open>
  The steps of a call, run with no step of another call in between, give what
  \<open>executeQuery\<close> gives; four steps reach the end of every call.
\<close>

lemma executeQuery_steps:
  "(advance d env (sql, params, db) ^^ 4) (Start, w)
     = (Finished (fst (executeQuery d env sql params db w)),
        snd (executeQuery d env sql params db w))"
proof -
  let ?adv = "advance d env (sql, params, db)"
  have four: "(?adv ^^ 4) (Start, w) = ?adv (?adv (?adv (start_call d env sql db w)))"
    by (simp add: eval_nat_numeral funpow_swap1)
  obtain r0 w0 where c: "(if pool w = None then createConnectionPool d env w else (Inr (), w))
      = (r0, w0)" by fastforce
  show ?thesis
  proof (cases r0)
    case (Inl e)
    with c show ?thesis
      by (simp add: four start_call_def executeQuery_def)
  next
    case (Inr u)
    show ?thesis
    proof (cases "connection w0")
      case (Some s)
      obtain r w' where tb: "try_block d env sql params db w0 = (r, w')" by fastforce
      have st: "start_call d env sql db w = after_connection d env sql db w0"
        using c Inr Some by (simp add: start_call_def)
      have "?adv (?adv (after_connection d env sql db w0))
          = (Finished r,
             release_connection (case r of Inl e \<Rightarrow> release_connection w' | Inr v \<Rightarrow> w'))"
        by (simp add: after_connection_steps[OF Some] tb)
      then have "(?adv ^^ 4) (Start, w)
          = (Finished r,
             release_connection (case r of Inl e \<Rightarrow> release_connection w' | Inr v \<Rightarrow> w'))"
        by (simp add: four st)
      then show ?thesis
        using c Inr tb by (simp add: executeQuery_def Let_def)
    next
      case None
      show ?thesis
      proof (cases "pool w0")
        case n: None
        with None c Inr show ?thesis
          by (simp add: four start_call_def catch_finally_def executeQuery_def try_block_def
              acquire_def Let_def)
      next
        case (Some p)
        have st: "start_call d env sql db w = (AwaitConnection, w0)"
          using c Inr None Some by (simp add: start_call_def)
        show ?thesis
        proof (cases "pool_getConnection d p")
          case (Inl e)
          with None Some c Inr show ?thesis
            by (simp add: four st resume_connection_def catch_finally_def executeQuery_def
                try_block_def acquire_def Let_def)
        next
          case r: (Inr x)
          obtain s p' where x: "x = (s, p')" by (cases x)
          let ?w1 = "w0\<lparr> pool := Some p', connection := Some s, trace := trace w0 @ [Acquire s] \<rparr>"
          have c1: "connection ?w1 = Some s" by simp
          have a: "acquire d w0 = (Inr s, ?w1)"
            using None Some r x by (simp add: acquire_def)
          have a1: "acquire d ?w1 = (Inr s, ?w1)" by (simp add: acquire_def)
          have t: "try_block d env sql params db w0 = try_block d env sql params db ?w1"
            by (simp add: try_block_def a a1)
          obtain r1 w' where tb: "try_block d env sql params db ?w1 = (r1, w')" by fastforce
          have rc: "?adv (AwaitConnection, w0) = after_connection d env sql db ?w1"
            using Some r x by (simp add: resume_connection_def)
          have "?adv (?adv (after_connection d env sql db ?w1))
              = (Finished r1,
                 release_connection
                   (case r1 of Inl e \<Rightarrow> release_connection w' | Inr v \<Rightarrow> w'))"
            by (simp add: after_connection_steps[OF c1] tb)
          then have "(?adv ^^ 4) (Start, w)
              = (Finished r1,
                 release_connection
                   (case r1 of Inl e \<Rightarrow> release_connection w' | Inr v \<Rightarrow> w'))"
            by (simp only: four st rc)
          then show ?thesis
            using c Inr t tb by (simp add: executeQuery_def Let_def)
        qed
      qed
    qed
  qed
qed


lemma release_connection_slot:
  "connection (release_connection w) = None"
  "pool (release_connection w) = None \<longleftrightarrow> pool w = None"
  by (simp_all add: release_connection_def split: option.splits)

lemma catch_finally_slot:
  "catch_finally e w = (pc', w') \<Longrightarrow> connection w' = None \<and> (pool w' = None \<longleftrightarrow> pool w = None)"
  by (auto simp: catch_finally_def release_connection_slot)

lemma return_finally_slot:
  "return_finally r w = (pc', w') \<Longrightarrow> connection w' = None \<and> (pool w' = None \<longleftrightarrow> pool w = None)"
  by (auto simp: return_finally_def release_connection_slot)

lemma issue_query_slot:
  assumes "issue_query d env sql w = (pc', w')"
  shows "(in_progress pc' \<and> connection w' = connection w \<or> connection w' = None)
         \<and> (pool w' = None \<longleftrightarrow> pool w = None)"
proof (cases "\<not> isAlloowedQuery env sql \<or> connection w = None")
  case True
  with assms have "catch_finally (Error ''Query not allowed'') w = (pc', w')
      \<or> catch_finally (TypeError ''Cannot read properties of null'') w = (pc', w')"
    by (auto simp: issue_query_def split: if_splits)
  then show ?thesis
  proof
    assume "catch_finally (Error ''Query not allowed'') w = (pc', w')"
    from catch_finally_slot[OF this] show ?thesis by simp
  next
    assume "catch_finally (TypeError ''Cannot read properties of null'') w = (pc', w')"
    from catch_finally_slot[OF this] show ?thesis by simp
  qed
next
  case False
  then obtain c where c: "connection w = Some c" and a: "isAlloowedQuery env sql" by auto
  obtain r w1 where s: "send d c sql w = (r, w1)" by fastforce
  with assms c a have "pc' = AwaitQuery r" "w' = w1" by (simp_all add: issue_query_def)
  with send_connection[OF s] show ?thesis by simp
qed

lemma after_connection_slot:
  assumes "after_connection d env sql db w = (pc', w')"
  shows "(in_progress pc' \<and> connection w' = connection w \<or> connection w' = None)
         \<and> (pool w' = None \<longleftrightarrow> pool w = None)"
proof (cases "use_statements db")
  case Nil
  then have "after_connection d env sql db w = issue_query d env sql w"
    by (auto simp: after_connection_def use_statements_def split: option.splits if_splits)
  with assms issue_query_slot show ?thesis by simp
next
  case (Cons x xs)
  then obtain name where n: "db = Some name" "name \<noteq> []"
    by (auto simp: use_statements_def split: option.splits if_splits)
  show ?thesis
  proof (cases "connection w")
    case None
    with n assms have "catch_finally (TypeError ''Cannot read properties of null'') w = (pc', w')"
      by (simp add: after_connection_def)
    from catch_finally_slot[OF this] show ?thesis by simp
  next
    case (Some c)
    obtain r w1 where s: "send d c (use_statement name) w = (r, w1)" by fastforce
    with assms n Some have "pc' = AwaitUse r" "w' = w1" by (simp_all add: after_connection_def)
    with send_connection[OF s] show ?thesis by simp
  qed
qed

lemma createConnectionPool_slot:
  assumes "createConnectionPool d env w = (r, w0)"
  shows "connection w0 = connection w" and "isl r \<Longrightarrow> w0 = w"
    and "\<not> isl r \<Longrightarrow> pool w0 \<noteq> None"
  using assms
  by (auto simp: createConnectionPool_def split: sum.splits option.splits)

lemma start_call_slot:
  assumes "start_call d env sql db w = (pc', w')"
  shows "in_progress pc' \<or> connection w' = None \<or> (w' = w \<and> pool w = None)"
    and "pool w' = None \<Longrightarrow> pool w = None \<and> (connection w' = None \<or> w' = w)"
proof -
  obtain r0 w0 where c: "(if pool w = None then createConnectionPool d env w else (Inr (), w))
      = (r0, w0)" by fastforce
  have w0: "connection w0 = connection w" "isl r0 \<Longrightarrow> w0 = w \<and> pool w = None"
    "\<not> isl r0 \<Longrightarrow> pool w0 \<noteq> None"
    using c createConnectionPool_slot[of d env w r0 w0] by (auto split: if_splits)
  have "(in_progress pc' \<or> connection w' = None \<or> (w' = w \<and> pool w = None))
      \<and> (pool w' = None \<longrightarrow> pool w = None \<and> (connection w' = None \<or> w' = w))"
  proof (cases r0)
    case (Inl e)
    with c assms w0 show ?thesis by (simp add: start_call_def)
  next
    case (Inr u)
    with w0 have p: "pool w0 \<noteq> None" by simp
    show ?thesis
    proof (cases "connection w0")
      case (Some s)
      with c Inr assms have "after_connection d env sql db w0 = (pc', w')"
        by (simp add: start_call_def)
      from after_connection_slot[OF this] p show ?thesis by auto
    next
      case None
      from p obtain q where q: "pool w0 = Some q" by auto
      with c Inr assms None have "pc' = AwaitConnection" "w' = w0"
        by (simp_all add: start_call_def)
      with p show ?thesis by auto
    qed
  qed
  then show "in_progress pc' \<or> connection w' = None \<or> (w' = w \<and> pool w = None)"
    and "pool w' = None \<Longrightarrow> pool w = None \<and> (connection w' = None \<or> w' = w)"
    by simp_all
qed

lemma resume_connection_slot:
  assumes "resume_connection d env sql db w = (pc', w')"
  shows "in_progress pc' \<or> connection w' = None"
    and "pool w' = None \<Longrightarrow> pool w = None \<and> connection w' = None"
proof -
  have "(in_progress pc' \<or> connection w' = None)
     \<and> (pool w' = None \<longrightarrow> pool w = None \<and> connection w' = None)"
  proof (cases "pool w")
    case None
    with assms have "catch_finally (TypeError ''Cannot read properties of null'') w = (pc', w')"
      by (simp add: resume_connection_def)
    from catch_finally_slot[OF this] show ?thesis by simp
  next
    case (Some p)
    show ?thesis
    proof (cases "pool_getConnection d p")
      case (Inl e)
      with Some assms have "catch_finally e w = (pc', w')"
        by (simp add: resume_connection_def)
      from catch_finally_slot[OF this] show ?thesis by simp
    next
      case (Inr x)
      obtain c p' where x: "x = (c, p')" by (cases x)
      with Some Inr assms have "after_connection d env sql db
          (w\<lparr> pool := Some p', connection := Some c, trace := trace w @ [Acquire c] \<rparr>)
          = (pc', w')"
        by (simp add: resume_connection_def)
      from after_connection_slot[OF this] show ?thesis by auto
    qed
  qed
  then show "in_progress pc' \<or> connection w' = None"
    and "pool w' = None \<Longrightarrow> pool w = None \<and> connection w' = None"
    by simp_all
qed

lemma resume_use_slot:
  assumes "resume_use d env sql r w = (pc', w')"
  shows "(in_progress pc' \<and> connection w' = connection w \<or> connection w' = None)
         \<and> (pool w' = None \<longleftrightarrow> pool w = None)"
proof (cases r)
  case (Inl e)
  with assms have "catch_finally e w = (pc', w')" by (simp add: resume_use_def)
  from catch_finally_slot[OF this] show ?thesis by simp
next
  case (Inr u)
  with assms have "issue_query d env sql w = (pc', w')" by (simp add: resume_use_def)
  from issue_query_slot[OF this] show ?thesis by auto
qed

lemma resume_query_slot:
  assumes "resume_query params r w = (pc', w')"
  shows "connection w' = None \<and> (pool w' = None \<longleftrightarrow> pool w = None)"
proof (cases r)
  case (Inl e)
  with assms have "catch_finally e w = (pc', w')" by (simp add: resume_query_def)
  from catch_finally_slot[OF this] show ?thesis by simp
next
  case (Inr x)
  obtain rows fields' where x: "x = (rows, fields')" by (cases x)
  show ?thesis
  proof (cases "contains_bigint (JArr params)")
    case True
    with Inr x assms
    have "catch_finally (TypeError ''Do not know how to serialize a BigInt'') w = (pc', w')"
      by (simp add: resume_query_def)
    from catch_finally_slot[OF this] show ?thesis by simp
  next
    case False
    with Inr x assms
    have "return_finally (convertBigIntToString (limit_rows rows), fields') w = (pc', w')"
      by (simp add: resume_query_def)
    from return_finally_slot[OF this] show ?thesis by simp
  qed
qed

text \<open>
  What a step of a call leaves in the slot: nothing, unless the call is in progress after
  it or the step did nothing.
\<close>

lemma advance_slot:
  assumes "advance d env call (pc, w) = (pc', w')"
  shows "in_progress pc' \<or> connection w' = None \<or> (w' = w \<and> (pc' = pc \<or> pool w = None))"
    and "(pool w = None \<longrightarrow> connection w = None) \<Longrightarrow> pool w' = None \<Longrightarrow> connection w' = None"
proof -
  obtain sql params db where call: "call = (sql, params, db)" by (cases call)
  have "(in_progress pc' \<or> connection w' = None \<or> (w' = w \<and> (pc' = pc \<or> pool w = None)))
      \<and> ((pool w = None \<longrightarrow> connection w = None) \<longrightarrow> pool w' = None \<longrightarrow> connection w' = None)"
  proof (cases pc)
    case Start
    with assms call have "start_call d env sql db w = (pc', w')" by simp
    from start_call_slot[OF this] show ?thesis by auto
  next
    case AwaitConnection
    with assms call have "resume_connection d env sql db w = (pc', w')" by simp
    from resume_connection_slot[OF this] show ?thesis by auto
  next
    case (AwaitUse r)
    with assms call have "resume_use d env sql r w = (pc', w')" by simp
    from resume_use_slot[OF this] show ?thesis by auto
  next
    case (AwaitQuery r)
    with assms call have "resume_query params r w = (pc', w')" by simp
    from resume_query_slot[OF this] show ?thesis by auto
  next
    case (Finished r)
    with assms call show ?thesis by simp
  qed
  then show "in_progress pc' \<or> connection w' = None \<or> (w' = w \<and> (pc' = pc \<or> pool w = None))"
    and "(pool w = None \<longrightarrow> connection w = None) \<Longrightarrow> pool w' = None \<Longrightarrow> connection w' = None"
    by simp_all
qed

lemma step_call_slot:
  assumes "step_call d env calls i (pcs, w) = (pcs', w')"
    and "pool w = None \<longrightarrow> connection w = None"
    and "connection w \<noteq> None \<longrightarrow> (\<exists>pc\<in>set pcs. in_progress pc)"
  shows "(pool w' = None \<longrightarrow> connection w' = None)
       \<and> (connection w' \<noteq> None \<longrightarrow> (\<exists>pc\<in>set pcs'. in_progress pc))"
proof (cases "i < length calls \<and> i < length pcs")
  case False
  with assms show ?thesis by (simp add: step_call_def)
next
  case True
  obtain pc' w1 where a: "advance d env (calls ! i) (pcs ! i, w) = (pc', w1)" by fastforce
  with True assms(1) have r: "pcs' = pcs[i := pc']" "w' = w1" by (simp_all add: step_call_def)
  note s = advance_slot[OF a]
  have 1: "pool w' = None \<longrightarrow> connection w' = None"
    using s(2)[OF assms(2)] r by simp
  have 2: "\<exists>pc\<in>set pcs'. in_progress pc" if c: "connection w' \<noteq> None"
  proof -
    from s(1) c r assms(2)
    consider "in_progress pc'" | "w' = w" "pc' = pcs ! i" by auto
    then show ?thesis
    proof cases
      case 1
      have "pc' \<in> set (pcs[i := pc'])" using True by (simp add: set_update_memI)
      with 1 r show ?thesis by blast
    next
      case 2
      then have "pcs' = pcs" using r by simp
      with 2 c assms(3) show ?thesis by simp
    qed
  qed
  from 1 2 show ?thesis by blast
qed

lemma fold_step_call_slot:
  assumes "fold (step_call d env calls) schedule (pcs, w) = (pcs', w')"
    and "pool w = None \<longrightarrow> connection w = None"
    and "connection w \<noteq> None \<longrightarrow> (\<exists>pc\<in>set pcs. in_progress pc)"
  shows "(pool w' = None \<longrightarrow> connection w' = None)
       \<and> (connection w' \<noteq> None \<longrightarrow> (\<exists>pc\<in>set pcs'. in_progress pc))"
  using assms
proof (induction schedule arbitrary: pcs w)
  case Nil
  then show ?case by simp
next
  case (Cons i schedule)
  obtain pcs1 w1 where s: "step_call d env calls i (pcs, w) = (pcs1, w1)" by fastforce
  from step_call_slot[OF s Cons.prems(2,3)] Cons.IH[of pcs1 w1] Cons.prems(1) s
  show ?case by simp
qed

text \<open>When no call is in progress, whatever ran before, the slot is empty.\<close>

lemma quiescent_slot_empty:
  assumes "run_schedule d env calls schedule initial_world = (pcs, w)"
    and "\<forall>pc\<in>set pcs. \<not> in_progress pc"
  shows "connection w = None"
proof -
  have "connection initial_world = None" by (simp add: initial_world_def)
  with fold_step_call_slot[OF assms(1)[unfolded run_schedule_def]] assms(2)
  show ?thesis by auto
qed

section \<open>Scenarios: what the runs give\<close>

lemmas exec_defs = executeQuery_def createConnectionPool_def initial_world_def
  try_block_def acquire_def pool_getConnection_def empty_pool_def connectionLimit_def
  scripted_driver_def use_database_def send_def limit_rows_def DEFAULT_ROW_LIMIT_def
  release_connection_def pool_release_def use_statement_def

lemma connection_env_config:
  "getConfigFromEnv connection_env
     = Inr \<lparr> host = ''localhost'', port = Num 3306, user = ''reader'', password = ''secret'',
             database = None, allow_insert = False, allow_update = False,
             allow_delete = False \<rparr>"
  by (simp add: getConfigFromEnv_def required_def connection_env_def)

lemma admission_of_scenarios:
  "isAlloowedQuery connection_env ''SELECT * FROM t''"
  "isAlloowedQuery connection_env ''SELECT * FROM missing''"
  "\<not> isAlloowedQuery connection_env ''DROP TABLE t''"
  "\<not> isAlloowedQuery connection_env []"
  by code_simp+

lemma run_select:
  "executeQuery (scripted_driver one_row_server) connection_env ''SELECT * FROM t'' [] None
     initial_world
   = (Inr (JArr [JObj [(''id'', JStr ''9007199254740993''), (''name'', JStr ''a'')]],
           [''id'', ''name'']),
      \<lparr> pool = Some \<lparr> idle = [0], active = [], opened = 1 \<rparr>, connection = None,
        trace = [CreatePool, Acquire 0, Statement 0 ''SELECT * FROM t'', Release 0] \<rparr>)"
  by (simp add: exec_defs connection_env_config admission_of_scenarios one_row_server_def
      bigint_toString_def digits_of_nat.simps assign_entries_def)

lemma run_missing:
  "executeQuery (scripted_driver one_row_server) connection_env ''SELECT * FROM missing'' [] None
     initial_world
   = (Inl (SqlError ''Table missing does not exist''),
      \<lparr> pool = Some \<lparr> idle = [0], active = [], opened = 1 \<rparr>, connection = None,
        trace = [CreatePool, Acquire 0, Statement 0 ''SELECT * FROM missing'', Release 0] \<rparr>)"
  by (simp add: exec_defs connection_env_config admission_of_scenarios one_row_server_def)

lemma run_after_failure:
  "executeQuery (scripted_driver one_row_server) connection_env ''SELECT * FROM t'' [] None
     \<lparr> pool = Some \<lparr> idle = [0], active = [], opened = 1 \<rparr>, connection = None,
       trace = [CreatePool, Acquire 0, Statement 0 ''SELECT * FROM missing'', Release 0] \<rparr>
   = (Inr (JArr [JObj [(''id'', JStr ''9007199254740993''), (''name'', JStr ''a'')]],
           [''id'', ''name'']),
      \<lparr> pool = Some \<lparr> idle = [0], active = [], opened = 1 \<rparr>, connection = None,
        trace = [CreatePool, Acquire 0, Statement 0 ''SELECT * FROM missing'', Release 0,
                 Acquire 0, Statement 0 ''SELECT * FROM t'', Release 0] \<rparr>)"
  by (simp add: exec_defs admission_of_scenarios one_row_server_def
      bigint_toString_def digits_of_nat.simps assign_entries_def)



lemmas step_defs = run_schedule_def step_call_def start_call_def resume_connection_def
  after_connection_def issue_query_def resume_use_def resume_query_def catch_finally_def
  return_finally_def createConnectionPool_def initial_world_def
  pool_getConnection_def pool_release_def empty_pool_def connectionLimit_def send_def
  release_connection_def limit_rows_def DEFAULT_ROW_LIMIT_def scripted_driver_def
  checked_out_def

text \<open>
  Two calls overlap; the first fails. Its \<^verbatim>\<open>catch\<close> clause releases the session of the
  second call, which is in the slot by then, and the session of the failed call stays
  checked out.
\<close>

lemma overlapping_failure_releases_other_session:
  "run_schedule (scripted_driver one_row_server) connection_env
      [(''SELECT * FROM missing'', [], None), (''SELECT * FROM t'', [], None)]
      [0, 1, 0, 1, 0, 1] initial_world
    = ([Finished (Inl (SqlError ''Table missing does not exist'')),
        Finished (Inr (JArr [JObj [(''id'', JStr ''9007199254740993''), (''name'', JStr ''a'')]],
                      [''id'', ''name'']))],
       \<lparr> pool = Some \<lparr> idle = [1], active = [0], opened = 2 \<rparr>, connection = None,
         trace = [CreatePool, Acquire 0, Statement 0 ''SELECT * FROM missing'',
                  Acquire 1, Statement 1 ''SELECT * FROM t'', Release 1] \<rparr>)"
  by (simp add: step_defs connection_env_config admission_of_scenarios one_row_server_def
      bigint_toString_def digits_of_nat.simps assign_entries_def)

section \<open>Admission: the claims\<close>

text \<open>
  Claim C1, at the input where the code departs from it. The normalised text of
  \<^verbatim>\<open>SELECT 1;DROP TABLE t;\<close> contains the disallowed command \<^verbatim>\<open>DROP\<close> as a standalone
  word, right after the separator; the scan of the code, which takes a word only between
  white space or the ends of the text, does not find it, and the query is allowed, with no
  write flag and with all three. So is a query where brackets stand around the word.
\<close>

theorem stacked_drop_allowed:
  "''DROP'' \<in> set DISALLOWED_COMMANDS
   \<and> normalizeQuery ''SELECT 1;DROP TABLE t;'' = ''SELECT 1;'' @ ''DROP'' @ '' TABLE T;''
   \<and> standalone_word ''DROP'' ''SELECT 1;DROP TABLE t;''
   \<and> standalone_word ''DROP'' (normalizeQuery ''SELECT 1;DROP TABLE t;'')
   \<and> \<not> containsDisallowed (normalizeQuery ''SELECT 1;DROP TABLE t;'')
   \<and> isAlloowedQuery Map.empty ''SELECT 1;DROP TABLE t;''
   \<and> isAlloowedQuery all_writes_env ''SELECT 1;DROP TABLE t;''
   \<and> normalizeQuery ''SELECT id FROM log WHERE action = (DROP)''
       = ''SELECT ID FROM LOG WHERE ACTION = ('' @ ''DROP'' @ '')''
   \<and> standalone_word ''DROP'' (normalizeQuery ''SELECT id FROM log WHERE action = (DROP)'')
   \<and> \<not> containsDisallowed (normalizeQuery ''SELECT id FROM log WHERE action = (DROP)'')
   \<and> isAlloowedQuery all_writes_env ''SELECT id FROM log WHERE action = (DROP)''"
  by code_simp

text \<open>
  What the scan does find: a disallowed command that stands between white space or the
  ends of the normalised text. Such a query is denied, whatever its leading token and
  whatever the three write-permission flags.
\<close>

lemma disallowed_word_denied:
  assumes "cmd \<in> set DISALLOWED_COMMANDS"
    and "normalizeQuery query = pre @ cmd @ post"
    and "pre = [] \<or> is_space (last pre)"
    and "post = [] \<or> is_space (hd post)"
  shows "\<not> isAlloowedQuery env query"
proof -
  from assms(2-4) have "regex_test_word cmd (normalizeQuery query)"
    unfolding regex_test_word_iff by blast
  with assms(1) have "containsDisallowed (normalizeQuery query)"
    unfolding containsDisallowed_def list_ex_iff by blast
  then show ?thesis by (simp add: isAlloowedQuery_def)
qed

lemma disallowed_word_denied_examples:
  "\<not> isAlloowedQuery all_writes_env ''select * from t lock in share mode''
   \<and> \<not> isAlloowedQuery all_writes_env ''SELECT 1; DROP TABLE t''"
  by code_simp

text \<open>
  The scan runs after the comments are removed: a word inside a comment is not part of
  the normalised text, and the query is allowed.
\<close>

lemma comment_hides_word:
  "isAlloowedQuery all_writes_env ''SELECT 1 -- DROP TABLE t''
   \<and> isAlloowedQuery Map.empty ''SELECT 1 -- DROP TABLE t''
   \<and> isAlloowedQuery all_writes_env ''SELECT 1 /*! DROP TABLE t */''
   \<and> \<not> contains_disallowed_word (normalizeQuery ''SELECT 1 -- DROP TABLE t'')"
  by code_simp

text \<open>
  Claim C2, at the input where the code departs from it. The normalised text
  \<^verbatim>\<open>SELECT 1; SELECT 2;\<close> contains a separator that is not solely a single trailing one,
  yet \<open>hasMultipleStatements\<close> is false for it and the query is allowed.
\<close>

theorem trailing_separator_hides_statements:
  "normalizeQuery ''SELECT 1; SELECT 2;'' = ''SELECT 1; SELECT 2;''
   \<and> separator_not_solely_trailing (normalizeQuery ''SELECT 1; SELECT 2;'')
   \<and> \<not> hasMultipleStatements (normalizeQuery ''SELECT 1; SELECT 2;'')
   \<and> isAlloowedQuery Map.empty ''SELECT 1; SELECT 2;''"
  by code_simp

text \<open>
  The two examples of C2 do hold: \<^verbatim>\<open>SELECT 1; SELECT 2\<close> is flagged and \<^verbatim>\<open>SELECT 1;\<close>
  is not.
\<close>

lemma multiple_statements_examples:
  "hasMultipleStatements (normalizeQuery ''SELECT 1; SELECT 2'')
   \<and> \<not> hasMultipleStatements (normalizeQuery ''SELECT 1;'')"
  by code_simp

text \<open>
  Claim C5, as amended. For a query whose normalised leading token is \<^verbatim>\<open>INSERT\<close>,
  \<^verbatim>\<open>UPDATE\<close> or \<^verbatim>\<open>DELETE\<close>: admission denies it when the corresponding permission
  flag is not enabled; admission allows it when the flag is enabled and the normalised
  text contains no disallowed command as a standalone word and no separator other than
  a single trailing one.
\<close>

theorem write_query_admission:
  "(leading_token (normalizeQuery query) = ''INSERT'' \<longrightarrow>
      (\<not> ALLOW_INSERT env \<longrightarrow> \<not> isAlloowedQuery env query)
      \<and> (ALLOW_INSERT env \<and> \<not> contains_disallowed_word (normalizeQuery query)
           \<and> \<not> separator_not_solely_trailing (normalizeQuery query)
          \<longrightarrow> isAlloowedQuery env query))
   \<and> (leading_token (normalizeQuery query) = ''UPDATE'' \<longrightarrow>
      (\<not> ALLOW_UPDATE env \<longrightarrow> \<not> isAlloowedQuery env query)
      \<and> (ALLOW_UPDATE env \<and> \<not> contains_disallowed_word (normalizeQuery query)
           \<and> \<not> separator_not_solely_trailing (normalizeQuery query)
          \<longrightarrow> isAlloowedQuery env query))
   \<and> (leading_token (normalizeQuery query) = ''DELETE'' \<longrightarrow>
      (\<not> ALLOW_DELETE env \<longrightarrow> \<not> isAlloowedQuery env query)
      \<and> (ALLOW_DELETE env \<and> \<not> contains_disallowed_word (normalizeQuery query)
           \<and> \<not> separator_not_solely_trailing (normalizeQuery query)
          \<longrightarrow> isAlloowedQuery env query))"
  using write_query_admission_checks[of query env]
    containsDisallowed_word[of "normalizeQuery query"]
    hasMultipleStatements_separator[of "normalizeQuery query"]
  by blast

text \<open>
  Witness for C5: the specification's \<^verbatim>\<open>INSERT\<close> is denied with the flag at
  \<^verbatim>\<open>false\<close> and allowed with it at \<^verbatim>\<open>true\<close>; an \<^verbatim>\<open>UPDATE\<close> and a \<^verbatim>\<open>DELETE\<close>
  are allowed under their flags and denied without them.
\<close>

theorem write_query_admission_witness:
  "leading_token (normalizeQuery ''INSERT INTO t VALUES (1)'') = ''INSERT''
   \<and> \<not> ALLOW_INSERT [''MARIADB_ALLOW_INSERT'' \<mapsto> ''false'']
   \<and> \<not> isAlloowedQuery [''MARIADB_ALLOW_INSERT'' \<mapsto> ''false''] ''INSERT INTO t VALUES (1)''
   \<and> ALLOW_INSERT [''MARIADB_ALLOW_INSERT'' \<mapsto> ''true'']
   \<and> \<not> contains_disallowed_word (normalizeQuery ''INSERT INTO t VALUES (1)'')
   \<and> \<not> separator_not_solely_trailing (normalizeQuery ''INSERT INTO t VALUES (1)'')
   \<and> isAlloowedQuery [''MARIADB_ALLOW_INSERT'' \<mapsto> ''true''] ''INSERT INTO t VALUES (1)''
   \<and> leading_token (normalizeQuery ''update t set a = 1'') = ''UPDATE''
   \<and> \<not> isAlloowedQuery Map.empty ''update t set a = 1''
   \<and> isAlloowedQuery all_writes_env ''update t set a = 1''
   \<and> leading_token (normalizeQuery ''DELETE FROM t;'') = ''DELETE''
   \<and> \<not> isAlloowedQuery Map.empty ''DELETE FROM t;''
   \<and> isAlloowedQuery all_writes_env ''DELETE FROM t;''"
proof -
  have l: "leading_token (normalizeQuery ''INSERT INTO t VALUES (1)'') = ''INSERT''"
    "leading_token (normalizeQuery ''update t set a = 1'') = ''UPDATE''"
    "leading_token (normalizeQuery ''DELETE FROM t;'') = ''DELETE''"
    by code_simp+
  have c: "\<not> contains_disallowed_word (normalizeQuery ''INSERT INTO t VALUES (1)'')"
    "\<not> separator_not_solely_trailing (normalizeQuery ''INSERT INTO t VALUES (1)'')"
    "\<not> contains_disallowed_word (normalizeQuery ''update t set a = 1'')"
    "\<not> separator_not_solely_trailing (normalizeQuery ''update t set a = 1'')"
    "\<not> contains_disallowed_word (normalizeQuery ''DELETE FROM t;'')"
    "\<not> separator_not_solely_trailing (normalizeQuery ''DELETE FROM t;'')"
    by code_simp+
  have f: "\<not> ALLOW_INSERT [''MARIADB_ALLOW_INSERT'' \<mapsto> ''false'']"
    "ALLOW_INSERT [''MARIADB_ALLOW_INSERT'' \<mapsto> ''true'']"
    "\<not> ALLOW_UPDATE Map.empty" "ALLOW_UPDATE all_writes_env"
    "\<not> ALLOW_DELETE Map.empty" "ALLOW_DELETE all_writes_env"
    by (simp_all add: ALLOW_INSERT_def ALLOW_UPDATE_def ALLOW_DELETE_def all_writes_env_def)
  from write_query_admission[of "''INSERT INTO t VALUES (1)''" "[''MARIADB_ALLOW_INSERT'' \<mapsto> ''false'']"]
    l(1) f(1)
  have i1: "\<not> isAlloowedQuery [''MARIADB_ALLOW_INSERT'' \<mapsto> ''false''] ''INSERT INTO t VALUES (1)''"
    by blast
  from write_query_admission[of "''INSERT INTO t VALUES (1)''" "[''MARIADB_ALLOW_INSERT'' \<mapsto> ''true'']"]
    l(1) f(2) c(1,2)
  have i2: "isAlloowedQuery [''MARIADB_ALLOW_INSERT'' \<mapsto> ''true''] ''INSERT INTO t VALUES (1)''"
    by blast
  from write_query_admission[of "''update t set a = 1''" Map.empty] l(2) f(3)
  have u1: "\<not> isAlloowedQuery Map.empty ''update t set a = 1''" by blast
  from write_query_admission[of "''update t set a = 1''" all_writes_env] l(2) f(4) c(3,4)
  have u2: "isAlloowedQuery all_writes_env ''update t set a = 1''" by blast
  from write_query_admission[of "''DELETE FROM t;''" Map.empty] l(3) f(5)
  have d1: "\<not> isAlloowedQuery Map.empty ''DELETE FROM t;''" by blast
  from write_query_admission[of "''DELETE FROM t;''" all_writes_env] l(3) f(6) c(5,6)
  have d2: "isAlloowedQuery all_writes_env ''DELETE FROM t;''" by blast
  from l i1 i2 u1 u2 d1 d2 f(1,2) c(1,2) show ?thesis by blast
qed

text \<open>
  Counterexample to C5 as stated: this query begins with \<^verbatim>\<open>INSERT\<close> and the insert
  flag is enabled, yet it is denied.
\<close>

theorem write_flag_not_sufficient_counterexample:
  "leading_token (normalizeQuery ''INSERT INTO t VALUES (1); DROP TABLE t'') = ''INSERT''
   \<and> ALLOW_INSERT all_writes_env
   \<and> \<not> isAlloowedQuery all_writes_env ''INSERT INTO t VALUES (1); DROP TABLE t''"
  by code_simp

text \<open>
  Claim C6. A query whose normalised leading token is \<^verbatim>\<open>SELECT\<close>, \<^verbatim>\<open>SHOW\<close>,
  \<^verbatim>\<open>DESCRIBE\<close>, \<^verbatim>\<open>DESC\<close> or \<^verbatim>\<open>EXPLAIN\<close> is allowed when no disallowed command is
  found and the multiple-statement check is false; and its admission is the same under any
  two settings of the environment, so of the three write-permission flags.
\<close>

theorem read_query_admission:
  assumes "leading_token (normalizeQuery query) \<in> set BASE_ALLOWED_COMMANDS"
  shows "(\<not> containsDisallowed (normalizeQuery query)
           \<and> \<not> hasMultipleStatements (normalizeQuery query)
          \<longrightarrow> isAlloowedQuery env query)
         \<and> isAlloowedQuery env query = isAlloowedQuery env' query"
proof -
  have "startsWithAllowed e (normalizeQuery query)" for e
    using assms read_command_allowed unfolding startsWithAllowed_iff_leading by blast
  then show ?thesis by (simp add: isAlloowedQuery_def)
qed

text \<open>
  Witness for C6: \<^verbatim>\<open>show tables;\<close> is allowed with no flag set, and alike with all
  three enabled.
\<close>

theorem read_query_admission_witness:
  "leading_token (normalizeQuery ''show tables;'') \<in> set BASE_ALLOWED_COMMANDS
   \<and> \<not> containsDisallowed (normalizeQuery ''show tables;'')
   \<and> \<not> hasMultipleStatements (normalizeQuery ''show tables;'')
   \<and> isAlloowedQuery Map.empty ''show tables;''
   \<and> isAlloowedQuery Map.empty ''show tables;'' = isAlloowedQuery all_writes_env ''show tables;''"
proof -
  have h: "leading_token (normalizeQuery ''show tables;'') \<in> set BASE_ALLOWED_COMMANDS"
    by code_simp
  have c: "\<not> containsDisallowed (normalizeQuery ''show tables;'')"
     "\<not> hasMultipleStatements (normalizeQuery ''show tables;'')"
    by code_simp+
  from read_query_admission[OF h, of Map.empty all_writes_env] h c show ?thesis by blast
qed

section \<open>Execution: the claims\<close>

text \<open>
  Claim C3, as amended. Whenever a call of \<open>executeQuery\<close> that no other call overlaps
  fails after a session was checked out of the pool, that session is released back to the
  pool exactly once and the module's slot is cleared: the session is not discarded, it
  stands at the back of the pool's idle queue, from where a later acquisition can hand it
  out again. Such a call starts from a state whose slot is empty, as it is whenever no
  call is in progress (\<open>quiescent_slot_empty\<close>), and runs with no step of another call in
  between, which is what \<open>executeQuery\<close> gives (\<open>executeQuery_steps\<close>). For calls that
  overlap the statement fails (\<open>overlapping_failure_releases_other_session\<close>).
\<close>

theorem failed_session_returns_to_pool:
  assumes "connection w = None"
    and "executeQuery d env sql params db w = (Inl e, w')"
    and "trace w' = trace w @ evs"
    and "Acquire c \<in> set evs"
  shows "connection w' = None
         \<and> count_list evs (Release c) = 1
         \<and> (\<exists>p. pool w' = Some p \<and> c \<in> set (idle p) \<and> last (idle p) = c)"
  using assms(1,2)
proof (cases rule: executeQuery_cases)
  case (no_session pre)
  with assms(3) have "evs = pre" by simp
  with assms(4) no_session(5) show ?thesis by auto
next
  case (session pre c' p p' sent)
  with assms(3) have evs: "evs = pre @ Acquire c' # map (Statement c') sent @ [Release c']"
    by simp
  with assms(4) session(1) have c: "c = c'" by auto
  have "idle (pool_release c' p') = idle p' @ [c']"
    by (rule pool_release_acquired(2)[OF session(3)])
  with session(4,5) c evs count_list_others(1)[OF session(1), of c' sent c']
  show ?thesis by simp
qed

text \<open>
  Witness for C3: a query on a missing table fails on session 0, which is released once
  and is idle in the pool afterwards.
\<close>

theorem failed_session_returns_to_pool_witness:
  "connection initial_world = None
   \<and> executeQuery (scripted_driver one_row_server) connection_env ''SELECT * FROM missing'' []
        None initial_world
      = (Inl (SqlError ''Table missing does not exist''),
         \<lparr> pool = Some \<lparr> idle = [0], active = [], opened = 1 \<rparr>, connection = None,
           trace = [CreatePool, Acquire 0, Statement 0 ''SELECT * FROM missing'', Release 0] \<rparr>)
   \<and> Acquire 0 \<in> set [CreatePool, Acquire 0, Statement 0 ''SELECT * FROM missing'', Release 0]
   \<and> count_list [CreatePool, Acquire 0, Statement 0 ''SELECT * FROM missing'', Release 0]
        (Release 0) = 1
   \<and> 0 \<in> set (idle \<lparr> idle = [0], active = [], opened = 1 \<rparr>)"
proof -
  have h: "connection initial_world = None" by (simp add: initial_world_def)
  have t: "trace \<lparr> pool = Some \<lparr> idle = [0], active = [], opened = 1 \<rparr>, connection = None,
           trace = [CreatePool, Acquire 0, Statement 0 ''SELECT * FROM missing'', Release 0] \<rparr>
         = trace initial_world
           @ [CreatePool, Acquire 0, Statement 0 ''SELECT * FROM missing'', Release 0]"
    by (simp add: initial_world_def)
  have a: "Acquire 0
      \<in> set [CreatePool, Acquire 0, Statement 0 ''SELECT * FROM missing'', Release 0]"
    by simp
  from failed_session_returns_to_pool[OF h run_missing t a] h run_missing a
  show ?thesis by simp
qed

text \<open>
  Counterexample to C3 as stated: after the failure on session 0, the next call acquires
  session 0 again and runs its statement on it.
\<close>

theorem failed_session_reused_counterexample:
  "executeQuery (scripted_driver one_row_server) connection_env ''SELECT * FROM missing'' []
        None initial_world
      = (Inl (SqlError ''Table missing does not exist''),
         \<lparr> pool = Some \<lparr> idle = [0], active = [], opened = 1 \<rparr>, connection = None,
           trace = [CreatePool, Acquire 0, Statement 0 ''SELECT * FROM missing'', Release 0] \<rparr>)
   \<and> snd (executeQuery (scripted_driver one_row_server) connection_env ''SELECT * FROM t'' []
        None
        \<lparr> pool = Some \<lparr> idle = [0], active = [], opened = 1 \<rparr>, connection = None,
          trace = [CreatePool, Acquire 0, Statement 0 ''SELECT * FROM missing'', Release 0] \<rparr>)
      = \<lparr> pool = Some \<lparr> idle = [0], active = [], opened = 1 \<rparr>, connection = None,
          trace = [CreatePool, Acquire 0, Statement 0 ''SELECT * FROM missing'', Release 0,
                   Acquire 0, Statement 0 ''SELECT * FROM t'', Release 0] \<rparr>"
  by (simp only: run_missing run_after_failure snd_conv simp_thms)




text \<open>
  Claim C7, at the input where the code departs from it. With \<^verbatim>\<open>MARIADB_ROW_LIMIT\<close>
  set to 10, a raw result of 50 rows is returned whole: the cap applied is the constant
  \<open>DEFAULT_ROW_LIMIT\<close>, and the setting is never read.
\<close>

theorem row_limit_setting_ignored:
  "(connection_env(''MARIADB_ROW_LIMIT'' \<mapsto> ''10'')) ''MARIADB_ROW_LIMIT'' = Some ''10''
   \<and> fst (executeQuery (scripted_driver (rows_server 50))
             (connection_env(''MARIADB_ROW_LIMIT'' \<mapsto> ''10'')) ''SELECT id FROM t'' [] None
             initial_world)
      = Inr (JArr (replicate 50 (JObj [(''id'', JNum (Num 1))])), [''id''])
   \<and> length (replicate 50 (JObj [(''id'', JNum (Num 1))])) = 50"
proof -
  have a: "isAlloowedQuery (connection_env(''MARIADB_ROW_LIMIT'' \<mapsto> ''10'')) ''SELECT id FROM t''"
    by code_simp
  have c: "\<exists>cfg. getConfigFromEnv (connection_env(''MARIADB_ROW_LIMIT'' \<mapsto> ''10'')) = Inr cfg"
    by (simp add: getConfigFromEnv_def required_def connection_env_def)
  then obtain cfg
    where c: "getConfigFromEnv (connection_env(''MARIADB_ROW_LIMIT'' \<mapsto> ''10'')) = Inr cfg"
    by blast
  show ?thesis
    by (simp add: exec_defs a c rows_server_def assign_entries_def)
qed

text \<open>
  Claim C8, at the input where the code departs from it. An object with an own property
  named \<^verbatim>\<open>__proto__\<close>, as a computed key or the parse of a JSON column creates it, loses
  that property in the conversion: the wide integer under it is not converted to a string
  but dropped, and a text under it is not returned.
\<close>

theorem proto_key_dropped:
  "lookup (JArr [JObj [(''__proto__'', JBigInt 9007199254740993), (''id'', JBigInt 7)]])
       [Index 0, Key ''__proto__''] = Some (JBigInt 9007199254740993)
   \<and> convertBigIntToString
        (JArr [JObj [(''__proto__'', JBigInt 9007199254740993), (''id'', JBigInt 7)]])
       = JArr [JObj [(''id'', JStr ''7'')]]
   \<and> lookup (convertBigIntToString
        (JArr [JObj [(''__proto__'', JBigInt 9007199254740993), (''id'', JBigInt 7)]]))
       [Index 0, Key ''__proto__''] = None
   \<and> convertBigIntToString (JObj [(''__proto__'', JStr ''a''), (''name'', JStr ''b'')])
       = JObj [(''name'', JStr ''b'')]"
  by (simp add: assign_entries_def bigint_toString_def digits_of_nat.simps)

text \<open>
  Along every path that does not pass through a property named \<^verbatim>\<open>__proto__\<close> the claim
  holds: a wide integer is replaced by the string of its decimal digits, which denotes the
  same integer; null, undefined, boolean, numeric and text values stay as they are; the
  converted result has a value at exactly such paths of the raw one, and no wide integer.
\<close>

lemma convertBigIntToString_paths:
  assumes "Key ''__proto__'' \<notin> set p"
  shows "(lookup v p = Some (JBigInt n) \<longrightarrow>
      lookup (convertBigIntToString v) p = Some (JStr (bigint_toString n))
      \<and> int_of_decimal (bigint_toString n) = n)
   \<and> (lookup v p = Some x \<and> is_plain x \<longrightarrow> lookup (convertBigIntToString v) p = Some x)
   \<and> (lookup (convertBigIntToString v) p = None \<longleftrightarrow> lookup v p = None)
   \<and> lookup (convertBigIntToString v) p \<noteq> Some (JBigInt m)"
  using assms
  by (auto simp: lookup_convert int_of_decimal_bigint_toString convert_plain convert_not_bigint)

text \<open>
  Claim C9, at the input where the code departs from it. Two calls of \<open>executeQuery\<close>
  overlap: each finds the slot empty and asks the pool for a session; the second session
  overwrites the first in the slot. Both calls return normally. The first call to end
  releases the session in the slot, which is the second one; the other call finds the slot
  empty and releases nothing. Session 0, checked out by the first call, is never released
  and remains checked out of the pool after both calls have ended.
\<close>

theorem overlapping_calls_leak_session:
  "run_schedule (scripted_driver one_row_server) connection_env
      [(''SELECT * FROM t'', [], None), (''SELECT * FROM t'', [], None)]
      [0, 1, 0, 1, 0, 1] initial_world
    = ([Finished (Inr (JArr [JObj [(''id'', JStr ''9007199254740993''), (''name'', JStr ''a'')]],
                      [''id'', ''name''])),
        Finished (Inr (JArr [JObj [(''id'', JStr ''9007199254740993''), (''name'', JStr ''a'')]],
                      [''id'', ''name'']))],
       \<lparr> pool = Some \<lparr> idle = [1], active = [0], opened = 2 \<rparr>, connection = None,
         trace = [CreatePool, Acquire 0, Statement 0 ''SELECT * FROM t'',
                  Acquire 1, Statement 1 ''SELECT * FROM t'', Release 1] \<rparr>)
   \<and> checked_out \<lparr> pool = Some \<lparr> idle = [1], active = [0], opened = 2 \<rparr>, connection = None,
         trace = [CreatePool, Acquire 0, Statement 0 ''SELECT * FROM t'',
                  Acquire 1, Statement 1 ''SELECT * FROM t'', Release 1] \<rparr> = [0]
   \<and> count_list [CreatePool, Acquire 0, Statement 0 ''SELECT * FROM t'',
                  Acquire 1, Statement 1 ''SELECT * FROM t'', Release 1] (Release 0) = 0"
  by (simp add: step_defs connection_env_config admission_of_scenarios one_row_server_def
      bigint_toString_def digits_of_nat.simps assign_entries_def)

text \<open>
  For a call that no other call overlaps the claim holds. From a state whose slot is empty,
  as it is whenever no call is in progress, a call run with no step of another call in
  between ends with the slot empty, every session it acquired released as often as
  acquired and at most once, and the sessions checked out of the pool as before the call.
\<close>

lemma executeQuery_releases_session:
  assumes "connection w = None"
    and "executeQuery d env sql params db w = (r, w')"
  shows "connection w' = None
         \<and> checked_out w' = checked_out w
         \<and> (\<exists>evs. trace w' = trace w @ evs
               \<and> (\<forall>c. count_list evs (Release c) = count_list evs (Acquire c)
                      \<and> count_list evs (Acquire c) \<le> 1))"
  using assms
proof (cases rule: executeQuery_cases)
  case (no_session pre)
  then show ?thesis using count_list_pre[of pre] by auto
next
  case (session pre c p p' sent)
  have "checked_out w' = active p"
    using session(4) pool_release_acquired(1)[OF session(3)] by (simp add: checked_out_def)
  moreover have "checked_out w = active p"
    using session(2) by (auto simp: checked_out_def empty_pool_def)
  ultimately show ?thesis using session(5,6) count_list_others[OF session(1)] by auto
qed

text \<open>
  Claim C10, as amended. \<open>getConfigFromEnv\<close> raises an error if and only if one of
  \<^verbatim>\<open>MARIADB_HOST\<close>, \<^verbatim>\<open>MARIADB_USER\<close>, \<^verbatim>\<open>MARIADB_PASSWORD\<close> is unset or empty.
  When it succeeds, the port is 3306 for an unset or empty \<^verbatim>\<open>MARIADB_PORT\<close>. For a text
  made of white space, an optional sign, a non-empty run of decimal digits and a rest that
  does not start with a digit, the port is the Number of the signed integer of that run:
  the integer itself up to \<open>2^53\<close> in magnitude, a rounded or infinite double beyond,
  \<^verbatim>\<open>-0\<close> for a negative zero. For a non-empty text in which no digit follows the white
  space and the optional sign, the port is \<open>NaN\<close>.
\<close>

theorem getConfigFromEnv_required:
  "(isl (getConfigFromEnv env) \<longleftrightarrow>
      falsy (env ''MARIADB_HOST'') \<or> falsy (env ''MARIADB_USER'')
      \<or> falsy (env ''MARIADB_PASSWORD''))
   \<and> (getConfigFromEnv env = Inr cfg \<and> falsy (env ''MARIADB_PORT'') \<longrightarrow> port cfg = Num 3306)
   \<and> (getConfigFromEnv env = Inr cfg \<and> env ''MARIADB_PORT'' = Some (ws @ sign @ ds @ rest)
        \<and> list_all is_space ws \<and> sign \<in> set [[], ''+'', ''-'']
        \<and> ds \<noteq> [] \<and> list_all is_digit ds \<and> (rest = [] \<or> \<not> is_digit (hd rest))
        \<longrightarrow> port cfg = to_number (sign = ''-'') (nat_of_digits ds)
            \<and> (0 < nat_of_digits ds \<and> nat_of_digits ds \<le> 2 ^ 53
                 \<longrightarrow> port cfg = Num (if sign = ''-'' then - real (nat_of_digits ds)
                                      else real (nat_of_digits ds))))
   \<and> (getConfigFromEnv env = Inr cfg \<and> env ''MARIADB_PORT'' = Some (ws @ sign @ rest')
        \<and> ws @ sign @ rest' \<noteq> []
        \<and> list_all is_space ws \<and> sign \<in> set [[], ''+'', ''-'']
        \<and> (sign = [] \<longrightarrow> rest' = [] \<or> (\<not> is_space (hd rest') \<and> hd rest' \<noteq> CHR ''+''
                                          \<and> hd rest' \<noteq> CHR ''-''))
        \<and> (rest' = [] \<or> \<not> is_digit (hd rest'))
        \<longrightarrow> port cfg = NaN)"
proof -
  have 1: "isl (getConfigFromEnv env) \<longleftrightarrow>
      falsy (env ''MARIADB_HOST'') \<or> falsy (env ''MARIADB_USER'')
      \<or> falsy (env ''MARIADB_PASSWORD'')"
    using required_isl[of env "''MARIADB_HOST''"] required_isl[of env "''MARIADB_USER''"]
      required_isl[of env "''MARIADB_PASSWORD''"]
    by (auto simp: getConfigFromEnv_def split: sum.splits)
  have 2: "port cfg = Num 3306"
    if "getConfigFromEnv env = Inr cfg" "falsy (env ''MARIADB_PORT'')"
    using that by (auto simp: getConfigFromEnv_def falsy_def split: sum.splits option.splits)
  have p: "port cfg = parseInt10 portStr"
    if "getConfigFromEnv env = Inr cfg" "env ''MARIADB_PORT'' = Some portStr" "portStr \<noteq> []"
    for portStr
    using that by (auto simp: getConfigFromEnv_def split: sum.splits)
  have 3: "port cfg = to_number (sign = ''-'') (nat_of_digits ds)"
    if "getConfigFromEnv env = Inr cfg" "env ''MARIADB_PORT'' = Some (ws @ sign @ ds @ rest)"
      "list_all is_space ws" "sign \<in> set [[], ''+'', ''-'']" "ds \<noteq> []" "list_all is_digit ds"
      "rest = [] \<or> \<not> is_digit (hd rest)"
  proof -
    have "port cfg = parseInt10 (ws @ sign @ ds @ rest)"
      using that(1,2,5) by (intro p) simp_all
    also have "\<dots> = to_number (sign = ''-'') (nat_of_digits ds)"
      using that(3,4,5,6,7) unfolding list_all_iff by (rule parseInt10_digits)
    finally show ?thesis .
  qed
  have 4: "port cfg = NaN"
    if "getConfigFromEnv env = Inr cfg" "env ''MARIADB_PORT'' = Some (ws @ sign @ rest')"
      "ws @ sign @ rest' \<noteq> []"
      "list_all is_space ws" "sign \<in> set [[], ''+'', ''-'']"
      "sign = [] \<longrightarrow> rest' = [] \<or> (\<not> is_space (hd rest') \<and> hd rest' \<noteq> CHR ''+''
                                          \<and> hd rest' \<noteq> CHR ''-'')"
      "rest' = [] \<or> \<not> is_digit (hd rest')"
  proof -
    have "port cfg = parseInt10 (ws @ sign @ rest')"
      using that(1,2,3) by (rule p)
    also have "\<dots> = NaN"
      using that(4,5,6,7) unfolding list_all_iff by (rule parseInt10_NaN)
    finally show ?thesis .
  qed
  show ?thesis
  proof (intro conjI impI)
    show "isl (getConfigFromEnv env) \<longleftrightarrow>
      falsy (env ''MARIADB_HOST'') \<or> falsy (env ''MARIADB_USER'')
      \<or> falsy (env ''MARIADB_PASSWORD'')" by (rule 1)
  qed (use 2 3 4 in \<open>simp_all add: to_number_exact\<close>)
qed

text \<open>
  Witness for C10: with the three variables set, a port of letters is accepted and gives
  \<open>NaN\<close>, the port \<^verbatim>\<open>3307\<close> gives 3307; with no port the default stands; with nothing set
  the call fails.
\<close>

theorem getConfigFromEnv_required_witness:
  "\<not> falsy (connection_env ''MARIADB_HOST'') \<and> \<not> falsy (connection_env ''MARIADB_USER'')
   \<and> \<not> falsy (connection_env ''MARIADB_PASSWORD'')
   \<and> getConfigFromEnv (connection_env(''MARIADB_PORT'' \<mapsto> ''mysql''))
      = Inr \<lparr> host = ''localhost'', port = NaN, user = ''reader'', password = ''secret'',
              database = None, allow_insert = False, allow_update = False,
              allow_delete = False \<rparr>
   \<and> getConfigFromEnv (connection_env(''MARIADB_PORT'' \<mapsto> ''3307''))
      = Inr \<lparr> host = ''localhost'', port = Num 3307, user = ''reader'', password = ''secret'',
              database = None, allow_insert = False, allow_update = False,
              allow_delete = False \<rparr>
   \<and> falsy (connection_env ''MARIADB_PORT'')
   \<and> getConfigFromEnv connection_env
      = Inr \<lparr> host = ''localhost'', port = Num 3306, user = ''reader'', password = ''secret'',
              database = None, allow_insert = False, allow_update = False,
              allow_delete = False \<rparr>
   \<and> falsy (Map.empty ''MARIADB_HOST'') \<and> isl (getConfigFromEnv Map.empty)"
proof -
  let ?cfg = "\<lambda>p. \<lparr> host = ''localhost'', port = p, user = ''reader'', password = ''secret'',
              database = None, allow_insert = False, allow_update = False,
              allow_delete = False \<rparr>"
  have f: "\<not> falsy (connection_env ''MARIADB_HOST'')" "\<not> falsy (connection_env ''MARIADB_USER'')"
    "\<not> falsy (connection_env ''MARIADB_PASSWORD'')" "falsy (connection_env ''MARIADB_PORT'')"
    "falsy (Map.empty ''MARIADB_HOST'')"
    by (simp_all add: falsy_def connection_env_def)
  have e: "isl (getConfigFromEnv Map.empty)"
    using getConfigFromEnv_required[of Map.empty "?cfg NaN" "[]" "[]" "[]" "[]" "[]"] f(5)
    by blast
  have ok: "\<not> isl (getConfigFromEnv (connection_env(''MARIADB_PORT'' \<mapsto> t)))" for t
    using getConfigFromEnv_required[of "connection_env(''MARIADB_PORT'' \<mapsto> t)"
        "?cfg NaN" "[]" "[]" "[]" "[]" "[]"] f(1,2,3)
    by simp
  have shape: "\<exists>p. getConfigFromEnv (connection_env(''MARIADB_PORT'' \<mapsto> t)) = Inr (?cfg p)"
    for t
    by (simp add: getConfigFromEnv_def required_def connection_env_def)
  obtain p1 where g1: "getConfigFromEnv (connection_env(''MARIADB_PORT'' \<mapsto> ''mysql''))
      = Inr (?cfg p1)"
    using shape by blast
  have "port (?cfg p1) = NaN"
    using getConfigFromEnv_required[of "connection_env(''MARIADB_PORT'' \<mapsto> ''mysql'')"
        "?cfg p1" "[]" "[]" "[]" "[]" "''mysql''"] g1
    by (simp add: is_digit_def is_space_def)
  with g1 have n: "getConfigFromEnv (connection_env(''MARIADB_PORT'' \<mapsto> ''mysql''))
      = Inr (?cfg NaN)" by simp
  obtain p2 where g2: "getConfigFromEnv (connection_env(''MARIADB_PORT'' \<mapsto> ''3307''))
      = Inr (?cfg p2)"
    using shape by blast
  have "port (?cfg p2) = Num 3307"
    using getConfigFromEnv_required[of "connection_env(''MARIADB_PORT'' \<mapsto> ''3307'')"
        "?cfg p2" "[]" "[]" "''3307''" "[]" "[]"] g2
    by (auto simp: is_digit_def nat_of_digits_def digit_value_def)
  with g2 have d: "getConfigFromEnv (connection_env(''MARIADB_PORT'' \<mapsto> ''3307''))
      = Inr (?cfg (Num 3307))" by simp
  have c: "getConfigFromEnv connection_env = Inr (?cfg (Num 3306))"
    by (simp add: getConfigFromEnv_def required_def connection_env_def)
  from f n d c e show ?thesis by simp
qed

text \<open>
  Counterexample to C10 as stated: all three variables are present, the password as the
  empty string, and the call fails; and a port text that is not a number, \<^verbatim>\<open>12abc\<close>,
  gives 12 and not \<open>NaN\<close>.
\<close>

theorem empty_password_counterexample:
  "(connection_env(''MARIADB_PASSWORD'' \<mapsto> [])) ''MARIADB_HOST'' = Some ''localhost''
   \<and> (connection_env(''MARIADB_PASSWORD'' \<mapsto> [])) ''MARIADB_USER'' = Some ''reader''
   \<and> (connection_env(''MARIADB_PASSWORD'' \<mapsto> [])) ''MARIADB_PASSWORD'' = Some []
   \<and> getConfigFromEnv (connection_env(''MARIADB_PASSWORD'' \<mapsto> []))
      = Inl (Error ''MARIADB_PASSWORD environment variable is required'')
   \<and> parseInt10 ''12abc'' = Num 12"
  by (simp add: getConfigFromEnv_def required_def connection_env_def parseInt10_def
      parse_signed_def is_space_def is_digit_def nat_of_digits_def digit_value_def
      to_number_def round_double_def bit_length.simps Let_def)

end
